theory Spec2Isabelle
  imports Main "HOL-Library.AList"
begin

section \<open>Python values\<close>

text \<open>
  The two enrichment scripts (\<^verbatim>\<open>scripts/api_enrichment.py\<close> and
  \<^verbatim>\<open>scripts/get_google_data.py\<close>) pass around untyped Python values: cells of a
  pandas DataFrame, parsed JSON documents and the dictionaries built from them.  One
  datatype covers them.  \<open>PNaN\<close> is the float NaN that pandas uses for a missing cell;
  other floats do not occur in the model (no modelled operation computes with one).  A
  \<open>dict\<close> is an association list in insertion order.  A character is a code point
  below 256.
\<close>

datatype pyval =
    PNone
  | PNaN
  | PBool bool
  | PInt int
  | PStr string
  | PList "pyval list"
  | PDict "(string \<times> pyval) list"

type_synonym pydict = "(string \<times> pyval) list"

datatype exn = KeyError | IndexError | TypeError | AttributeError | ValueError

subsection \<open>Strings\<close>

text \<open>\<^verbatim>\<open>str.isspace\<close> on code points below 256, which is what \<^verbatim>\<open>str.strip()\<close> removes.\<close>

definition is_space :: "char \<Rightarrow> bool" where
  "is_space c = (let n = (of_char c :: nat) in
     (9 \<le> n \<and> n \<le> 13) \<or> (28 \<le> n \<and> n \<le> 32) \<or> n = 133 \<or> n = 160)"

definition strip :: "string \<Rightarrow> string" where
  "strip s = dropWhile is_space (rev (dropWhile is_space (rev s)))"

definition lower_char :: "char \<Rightarrow> char" where
  "lower_char c = (let n = (of_char c :: nat) in
     if (65 \<le> n \<and> n \<le> 90) \<or> (192 \<le> n \<and> n \<le> 222 \<and> n \<noteq> 215)
     then char_of (n + 32) else c)"

definition lower :: "string \<Rightarrow> string" where
  "lower s = map lower_char s"

text \<open>\<^verbatim>\<open>sep.join(xs)\<close> and \<^verbatim>\<open>s.replace(c, '')\<close> for a single character \<open>c\<close>.\<close>

fun join :: "string \<Rightarrow> string list \<Rightarrow> string" where
  "join sep [] = []"
| "join sep [x] = x"
| "join sep (x # y # ys) = x @ sep @ join sep (y # ys)"

definition remove_char :: "char \<Rightarrow> string \<Rightarrow> string" where
  "remove_char c s = filter (\<lambda>x. x \<noteq> c) s"

subsection \<open>\<^verbatim>\<open>str()\<close> and \<^verbatim>\<open>repr()\<close>\<close>

definition digit_char :: "nat \<Rightarrow> char" where
  "digit_char d = char_of (48 + d)"

function str_nat :: "nat \<Rightarrow> string" where
  "str_nat n = (if n < 10 then [digit_char n] else str_nat (n div 10) @ [digit_char (n mod 10)])"
  by pat_completeness auto
termination
  by (relation "measure id") auto

definition str_int :: "int \<Rightarrow> string" where
  "str_int i = (if i < 0 then CHR ''-'' # str_nat (nat (- i)) else str_nat (nat i))"

definition hex_char :: "nat \<Rightarrow> char" where
  "hex_char d = (if d < 10 then char_of (48 + d) else char_of (87 + d))"

text \<open>
  \<^verbatim>\<open>repr\<close> of a string: the quote is \<^verbatim>\<open>'\<close> unless the string has a \<^verbatim>\<open>'\<close> and no
  \<^verbatim>\<open>"\<close>; backslash and the quote are escaped, tab, newline and carriage return are
  written \<^verbatim>\<open>\t \n \r\<close>, and the other non-printable code points as \<^verbatim>\<open>\xhh\<close>.
\<close>

definition repr_char :: "char \<Rightarrow> char \<Rightarrow> string" where
  "repr_char q c = (let n = (of_char c :: nat) in
     if c = q \<or> n = 92 then [char_of (92::nat), c]
     else if n = 9 then [char_of (92::nat), CHR ''t'']
     else if n = 10 then [char_of (92::nat), CHR ''n'']
     else if n = 13 then [char_of (92::nat), CHR ''r'']
     else if n < 32 \<or> (127 \<le> n \<and> n \<le> 160) \<or> n = 173
       then [char_of (92::nat), CHR ''x'', hex_char (n div 16), hex_char (n mod 16)]
     else [c])"

definition repr_str :: "string \<Rightarrow> string" where
  "repr_str s = (let q = (if char_of (39::nat) \<in> set s \<and> char_of (34::nat) \<notin> set s
                          then char_of (34::nat) else char_of (39::nat))
                 in q # concat (map (repr_char q) s) @ [q])"

fun py_repr :: "pyval \<Rightarrow> string" where
  "py_repr PNone = ''None''"
| "py_repr PNaN = ''nan''"
| "py_repr (PBool b) = (if b then ''True'' else ''False'')"
| "py_repr (PInt i) = str_int i"
| "py_repr (PStr s) = repr_str s"
| "py_repr (PList xs) = ''['' @ join '', '' (map py_repr xs) @ '']''"
| "py_repr (PDict kvs) =
     ''{'' @ join '', '' (map (\<lambda>kv. repr_str (fst kv) @ '': '' @ py_repr (snd kv)) kvs) @ ''}''"

fun py_str :: "pyval \<Rightarrow> string" where
  "py_str (PStr s) = s"
| "py_str v = py_repr v"

subsection \<open>Truth value, subscripts, slices\<close>

text \<open>An operation that can raise returns \<open>None\<close> where Python raises.\<close>

fun truthy :: "pyval \<Rightarrow> bool" where
  "truthy PNone = False"
| "truthy PNaN = True"
| "truthy (PBool b) = b"
| "truthy (PInt i) = (i \<noteq> 0)"
| "truthy (PStr s) = (s \<noteq> [])"
| "truthy (PList xs) = (xs \<noteq> [])"
| "truthy (PDict kvs) = (kvs \<noteq> [])"

definition dict_get :: "pydict \<Rightarrow> string \<Rightarrow> pyval \<Rightarrow> pyval" where
  "dict_get d k dflt = (case map_of d k of None \<Rightarrow> dflt | Some v \<Rightarrow> v)"

text \<open>\<^verbatim>\<open>len(v)\<close>: \<^verbatim>\<open>TypeError\<close> on a value without a length.\<close>

fun py_len :: "pyval \<Rightarrow> nat option" where
  "py_len (PStr s) = Some (length s)"
| "py_len (PList xs) = Some (length xs)"
| "py_len (PDict kvs) = Some (length kvs)"
| "py_len v = None"

text \<open>
  \<^verbatim>\<open>v[0]\<close>: \<^verbatim>\<open>IndexError\<close> on an empty sequence, \<^verbatim>\<open>KeyError\<close> on a dictionary
  (its keys are strings), \<^verbatim>\<open>TypeError\<close> on anything else.
\<close>

fun subscript0 :: "pyval \<Rightarrow> pyval option" where
  "subscript0 (PList (x # xs)) = Some x"
| "subscript0 (PStr (c # cs)) = Some (PStr [c])"
| "subscript0 v = None"

text \<open>\<^verbatim>\<open>v[:n]\<close>: defined on strings and lists only.\<close>

fun slice_to :: "nat \<Rightarrow> pyval \<Rightarrow> pyval option" where
  "slice_to n (PStr s) = Some (PStr (take n s))"
| "slice_to n (PList xs) = Some (PList (take n xs))"
| "slice_to n v = None"

text \<open>
  \<^verbatim>\<open>', '.join(v)\<close>: \<open>v\<close> must be iterable and every item a string.  Iterating a
  string gives its characters, iterating a dictionary its keys.
\<close>

fun the_str :: "pyval \<Rightarrow> string option" where
  "the_str (PStr s) = Some s"
| "the_str v = None"

fun comma_join :: "pyval \<Rightarrow> pyval option" where
  "comma_join (PList xs) =
     (if list_all (\<lambda>x. the_str x \<noteq> None) xs
      then Some (PStr (join '', '' (map py_str xs))) else None)"
| "comma_join (PStr s) = Some (PStr (join '', '' (map (\<lambda>c. [c]) s)))"
| "comma_join (PDict kvs) = Some (PStr (join '', '' (map fst kvs)))"
| "comma_join v = None"

section \<open>Open Library lookup (\<^verbatim>\<open>api_enrichment.py\<close>)\<close>

subsection \<open>The network\<close>

text \<open>
  \<^verbatim>\<open>requests.get\<close> is outside the program.  The model takes the network as a
  parameter: the outcome of the \<open>n\<close>-th request of the run, given what was asked.  An
  outcome is a \<^verbatim>\<open>requests.exceptions.Timeout\<close>, any other exception, or a response
  with its status code and its body as parsed by \<^verbatim>\<open>response.json()\<close> (\<open>None\<close> when
  parsing raises).  The events of a lookup are its requests and its calls of
  \<^verbatim>\<open>time.sleep\<close>, in order.  Writing to the log file is not modelled.
\<close>

datatype response = Timeout | ConnError | Reply nat "pyval option"

type_synonym network = "nat \<Rightarrow> string \<Rightarrow> response"

datatype event = Request string | Sleep nat

fun is_request :: "event \<Rightarrow> bool" where
  "is_request (Request q) = True"
| "is_request (Sleep d) = False"

definition requests_made :: "event list \<Rightarrow> nat" where
  "requests_made tr = length (filter is_request tr)"

subsection \<open>\<^verbatim>\<open>get_default_data\<close>\<close>

definition get_default_data :: "bool \<Rightarrow> pydict" where
  "get_default_data found =
     [(''api_found'', PBool found),
      (''api_title'', PStr ''Unknown''),
      (''api_author'', PStr ''Unknown Author''),
      (''api_authors_all'', PStr ''Unknown Author''),
      (''api_first_publish_year'', PInt 2020),
      (''api_isbn'', PInt 0),
      (''api_isbn_all'', PStr ''0''),
      (''api_publisher'', PStr ''Unknown Publisher''),
      (''api_publishers_all'', PStr ''Unknown Publisher''),
      (''api_language'', PStr ''en''),
      (''api_number_of_pages'', PInt 200),
      (''api_subject'', PStr ''General''),
      (''api_edition_count'', PInt 1),
      (''api_has_fulltext'', PBool False),
      (''api_search_url'', PStr ''https://openlibrary.org/'')]"

subsection \<open>\<^verbatim>\<open>search_book_by_title\<close>\<close>

text \<open>
  The dictionary returned for the first document of a successful search (lines 89 to
  105).  Any exception raised while it is built is a \<open>None\<close> here; the caller's
  \<^verbatim>\<open>except Exception\<close> handles them all alike.
\<close>

definition joined_or :: "pydict \<Rightarrow> string \<Rightarrow> nat option \<Rightarrow> string \<Rightarrow> pyval option" where
  "joined_or book k limit dflt =
     (if truthy (dict_get book k PNone)
      then (case limit of
              None \<Rightarrow> comma_join (dict_get book k (PList []))
            | Some n \<Rightarrow> Option.bind (slice_to n (dict_get book k (PList []))) comma_join)
      else Some (PStr dflt))"

definition found_record :: "pyval \<Rightarrow> pydict option" where
  "found_record b =
     (case b of
        PDict book \<Rightarrow>
          Option.bind (subscript0 (dict_get book ''author_name'' (PList [PStr ''Unknown Author'']))) (\<lambda>author.
          Option.bind (joined_or book ''author_name'' None ''Unknown'') (\<lambda>authors_all.
          Option.bind (subscript0 (dict_get book ''isbn'' (PList [PInt 0]))) (\<lambda>isbn.
          Option.bind (joined_or book ''isbn'' (Some 3) ''0'') (\<lambda>isbn_all.
          Option.bind (subscript0 (dict_get book ''publisher'' (PList [PStr ''Unknown'']))) (\<lambda>publisher.
          Option.bind (joined_or book ''publisher'' (Some 3) ''Unknown'') (\<lambda>publishers_all.
          Option.bind (subscript0 (dict_get book ''language'' (PList [PStr ''en'']))) (\<lambda>language.
          Option.bind (joined_or book ''subject'' (Some 5) ''General'') (\<lambda>subject.
          Some
            [(''api_found'', PBool True),
             (''api_title'', dict_get book ''title'' (PStr ''Unknown'')),
             (''api_author'', author),
             (''api_authors_all'', authors_all),
             (''api_first_publish_year'', dict_get book ''first_publish_year'' (PInt 2020)),
             (''api_isbn'', isbn),
             (''api_isbn_all'', isbn_all),
             (''api_publisher'', publisher),
             (''api_publishers_all'', publishers_all),
             (''api_language'', language),
             (''api_number_of_pages'', dict_get book ''number_of_pages_median'' (PInt 200)),
             (''api_subject'', subject),
             (''api_edition_count'', dict_get book ''edition_count'' (PInt 1)),
             (''api_has_fulltext'', dict_get book ''has_fulltext'' (PBool False)),
             (''api_search_url'',
                if truthy (dict_get book ''key'' PNone)
                then PStr (''https://openlibrary.org'' @ py_str (dict_get book ''key'' (PStr [])))
                else PStr ''https://openlibrary.org/'')]))))))))
      | _ \<Rightarrow> None)"

text \<open>
  Lines 83 to 108, for a response with status 200 whose body parsed to \<open>data\<close>: the
  record of the first document, or the default record when \<^verbatim>\<open>docs\<close> is missing or
  empty; \<open>None\<close> when an exception is raised on the way.
\<close>

definition read_docs :: "pyval \<Rightarrow> pydict option" where
  "read_docs data =
     (case data of
        PDict d \<Rightarrow>
          (let docs = dict_get d ''docs'' PNone in
           if truthy docs then
             (case py_len docs of
                None \<Rightarrow> None
              | Some n \<Rightarrow>
                  if n > 0 then Option.bind (subscript0 docs) found_record
                  else Some (get_default_data False))
           else Some (get_default_data False))
      | _ \<Rightarrow> None)"

text \<open>
  The handler of line 114 logs \<^verbatim>\<open>title[:20]\<close>, which itself raises when the title is
  not a string or a list; that exception leaves the function.  Which exception it is
  depends on the value (\<^verbatim>\<open>TypeError\<close> for a Python number, \<^verbatim>\<open>IndexError\<close> for a numpy
  scalar); the model writes \<^verbatim>\<open>TypeError\<close> for all of them.
\<close>

fun sliceable :: "pyval \<Rightarrow> bool" where
  "sliceable (PStr s) = True"
| "sliceable (PList xs) = True"
| "sliceable v = False"

definition prepend :: "event list \<Rightarrow> (exn + pydict) \<times> event list \<Rightarrow> (exn + pydict) \<times> event list" where
  "prepend evs r = (fst r, evs @ snd r)"

text \<open>
  The loop \<^verbatim>\<open>for attempt in range(max_retries)\<close>, from iteration \<open>attempt\<close> on;
  \<open>n\<close> counts the requests of the run so far.
\<close>

function search_loop ::
  "network \<Rightarrow> nat \<Rightarrow> pyval \<Rightarrow> string \<Rightarrow> int \<Rightarrow> int \<Rightarrow> (exn + pydict) \<times> event list" where
  "search_loop net n title clean_title max_retries attempt =
     (if attempt < max_retries then
        (case net n clean_title of
           Timeout \<Rightarrow>
             prepend (Request clean_title # (if attempt < max_retries - 1 then [Sleep 2] else []))
               (search_loop net (Suc n) title clean_title max_retries (attempt + 1))
         | ConnError \<Rightarrow>
             if sliceable title
             then prepend [Request clean_title]
                    (search_loop net (Suc n) title clean_title max_retries (attempt + 1))
             else (Inl TypeError, [Request clean_title])
         | Reply status body \<Rightarrow>
             if status = 200 then
               (case Option.bind body read_docs of
                  Some r \<Rightarrow> (Inr r, [Request clean_title])
                | None \<Rightarrow>
                    if sliceable title
                    then prepend [Request clean_title]
                           (search_loop net (Suc n) title clean_title max_retries (attempt + 1))
                    else (Inl TypeError, [Request clean_title]))
             else prepend [Request clean_title]
                    (search_loop net (Suc n) title clean_title max_retries (attempt + 1)))
      else (Inr (get_default_data False), []))"
  by pat_completeness auto
termination
  by (relation "measure (\<lambda>(net, n, title, clean_title, max_retries, attempt).
        nat (max_retries - attempt))") auto

declare search_loop.simps [simp del]

definition search_book_by_title ::
  "network \<Rightarrow> nat \<Rightarrow> pyval \<Rightarrow> int \<Rightarrow> (exn + pydict) \<times> event list" where
  "search_book_by_title net n title max_retries =
     (let clean_title = strip (py_str title) in
      if clean_title = [] \<or> lower clean_title = ''nan''
      then (Inr (get_default_data False), [])
      else search_loop net n title clean_title max_retries 0)"

text \<open>
  The events of a lookup whose \<open>k\<close> remaining attempts all time out: a request each,
  and a sleep of two seconds after every attempt but the last.
\<close>

fun timeout_trace :: "string \<Rightarrow> nat \<Rightarrow> event list" where
  "timeout_trace q 0 = []"
| "timeout_trace q (Suc k) = Request q # (if 0 < k then [Sleep 2] else []) @ timeout_trace q k"

text \<open>
  An attempt is used up when its outcome lets the loop go on to the next attempt: a
  timeout, a status other than 200, or another exception that the handler of line 114
  survives.
\<close>

definition exhausts :: "pyval \<Rightarrow> response \<Rightarrow> bool" where
  "exhausts title r =
     (case r of
        Timeout \<Rightarrow> True
      | ConnError \<Rightarrow> sliceable title
      | Reply status body \<Rightarrow>
          status \<noteq> 200 \<or> (Option.bind body read_docs = None \<and> sliceable title))"

section \<open>DataFrames\<close>

text \<open>
  The part of pandas that \<^verbatim>\<open>enrich_dataset_with_api\<close> uses.  pandas is a library, not part of
  the repository; the definitions below follow its documented behaviour.  A frame has
  its column labels and its rows; a row holds a cell for every column, in column order.
  A cell is missing when it is \<^verbatim>\<open>None\<close> or NaN.
\<close>

type_synonym row = "(string \<times> pyval) list"

record dataframe =
  columns :: "string list"
  rows :: "row list"

definition frame_ok :: "dataframe \<Rightarrow> bool" where
  "frame_ok df = list_all (\<lambda>r. map fst r = columns df) (rows df)"

fun isna :: "pyval \<Rightarrow> bool" where
  "isna PNone = True"
| "isna PNaN = True"
| "isna v = False"

definition cell :: "row \<Rightarrow> string \<Rightarrow> pyval" where
  "cell r c = dict_get r c PNaN"

text \<open>\<^verbatim>\<open>df[c]\<close> as a list of cells, and \<^verbatim>\<open>Series.dropna()\<close>.\<close>

definition column_values :: "dataframe \<Rightarrow> string \<Rightarrow> pyval list" where
  "column_values df c = map (\<lambda>r. cell r c) (rows df)"

definition dropna :: "pyval list \<Rightarrow> pyval list" where
  "dropna vs = filter (\<lambda>v. \<not> isna v) vs"

text \<open>
  Keys are compared through a hash table: lists and dictionaries are unhashable
  (\<^verbatim>\<open>TypeError\<close>), and \<^verbatim>\<open>True\<close> and \<^verbatim>\<open>False\<close> are the same keys as \<open>1\<close> and
  \<open>0\<close>.
\<close>

fun hashable :: "pyval \<Rightarrow> bool" where
  "hashable (PList xs) = False"
| "hashable (PDict kvs) = False"
| "hashable v = True"

fun py_key :: "pyval \<Rightarrow> pyval" where
  "py_key (PBool b) = PInt (if b then 1 else 0)"
| "py_key v = v"

text \<open>\<^verbatim>\<open>Series.unique()\<close>: the distinct values in order of first appearance.\<close>

fun unique_from :: "pyval list \<Rightarrow> pyval list \<Rightarrow> pyval list" where
  "unique_from seen [] = []"
| "unique_from seen (v # vs) =
     (if py_key v \<in> set seen then unique_from seen vs
      else v # unique_from (py_key v # seen) vs)"

definition unique :: "pyval list \<Rightarrow> exn + pyval list" where
  "unique vs = (if list_all hashable vs then Inr (unique_from [] vs) else Inl TypeError)"

text \<open>
  \<^verbatim>\<open>np.random.choice(xs, k, replace=False)\<close>: the first \<open>k\<close> items of a random
  permutation of \<open>xs\<close>.  The permutation drawn for a population of size \<open>m\<close> is the
  parameter \<open>rng m\<close>; a negative size raises \<^verbatim>\<open>ValueError\<close>.
\<close>

definition valid_rng :: "(nat \<Rightarrow> nat list) \<Rightarrow> bool" where
  "valid_rng rng = (\<forall>m. distinct (rng m) \<and> set (rng m) = {..<m})"

definition choice :: "(nat \<Rightarrow> nat list) \<Rightarrow> pyval list \<Rightarrow> int \<Rightarrow> exn + pyval list" where
  "choice rng xs k =
     (if k < 0 then Inl ValueError
      else Inr (map (\<lambda>i. xs ! i) (take (nat k) (rng (length xs)))))"

text \<open>
  \<^verbatim>\<open>pd.DataFrame(records)\<close> for a list of dictionaries: the columns are the keys in
  order of first appearance, a key that a record lacks gives a NaN cell.  An empty list
  gives a frame without columns.
\<close>

definition union_keys :: "pydict list \<Rightarrow> string list" where
  "union_keys records = rev (remdups (rev (concat (map (map fst) records))))"

definition DataFrame :: "pydict list \<Rightarrow> dataframe" where
  "DataFrame records =
     (let cols = union_keys records in
      \<lparr>columns = cols, rows = map (\<lambda>d. map (\<lambda>c. (c, dict_get d c PNaN)) cols) records\<rparr>)"

text \<open>
  \<^verbatim>\<open>left.merge(right, left_on=.., right_on=.., how='left', suffixes=('', rsuffix))\<close>.
  A key column that is not there raises \<^verbatim>\<open>KeyError\<close>.  Every left row is kept, in
  order, once for every right row with the same key, and once with NaN in the right
  columns when there is none; missing keys match each other.  A right column whose label
  is also a left column gets the suffix; when both key columns have the same label the
  right one is left out.  pandas stores a column of integers that receives a NaN as
  floats; the model has no floats and keeps such a cell as it is.
\<close>

definition keys_match :: "pyval \<Rightarrow> pyval \<Rightarrow> bool" where
  "keys_match a b = (if isna a \<or> isna b then isna a \<and> isna b else py_key a = py_key b)"

definition merge_left ::
  "dataframe \<Rightarrow> dataframe \<Rightarrow> string \<Rightarrow> string \<Rightarrow> string \<Rightarrow> exn + dataframe" where
  "merge_left left right left_on right_on rsuffix =
     (if left_on \<notin> set (columns left) \<or> right_on \<notin> set (columns right) then Inl KeyError
      else if \<not> (list_all hashable (column_values left left_on)
                \<and> list_all hashable (column_values right right_on)) then Inl TypeError
      else
        (let kept = (\<lambda>c. \<not> (left_on = right_on \<and> c = right_on));
             renamed = (\<lambda>c. if c \<in> set (columns left) then c @ rsuffix else c);
             rcols = map renamed (filter kept (columns right));
             rpart = (\<lambda>r. map (\<lambda>kv. (renamed (fst kv), snd kv)) (filter (\<lambda>kv. kept (fst kv)) r));
             pad = map (\<lambda>c. (c, PNaN)) rcols
         in Inr \<lparr>columns = columns left @ rcols,
                 rows = concat (map (\<lambda>l.
                   (let ms = filter (\<lambda>r. keys_match (cell l left_on) (cell r right_on))
                                    (rows right)
                    in if ms = [] then [l @ pad] else map (\<lambda>r. l @ rpart r) ms))
                   (rows left))\<rparr>))"

text \<open>\<^verbatim>\<open>df.drop(c, axis=1)\<close> and \<^verbatim>\<open>df[c] = df[c].fillna(val)\<close>.\<close>

definition drop_column :: "string \<Rightarrow> dataframe \<Rightarrow> dataframe" where
  "drop_column c df =
     \<lparr>columns = filter (\<lambda>k. k \<noteq> c) (columns df),
      rows = map (filter (\<lambda>kv. fst kv \<noteq> c)) (rows df)\<rparr>"

definition fillna_column :: "string \<Rightarrow> pyval \<Rightarrow> dataframe \<Rightarrow> dataframe" where
  "fillna_column c val df =
     \<lparr>columns = columns df,
      rows = map (map (\<lambda>kv. if fst kv = c \<and> isna (snd kv) then (fst kv, val) else kv)) (rows df)\<rparr>"

section \<open>\<^verbatim>\<open>enrich_dataset_with_api\<close> and \<^verbatim>\<open>main\<close>\<close>

text \<open>
  Lines 146 to 157: one lookup per title, with the default \<open>max_retries = 3\<close>, and the
  title stored under \<^verbatim>\<open>original_title\<close>.  \<open>n\<close> counts the requests made so far.  An
  exception that leaves a lookup ends the loop.
\<close>

fun enrich_loop :: "network \<Rightarrow> nat \<Rightarrow> pyval list \<Rightarrow> exn + pydict list" where
  "enrich_loop net n [] = Inr []"
| "enrich_loop net n (title # titles) =
     (case search_book_by_title net n title 3 of
        (Inl e, tr) \<Rightarrow> Inl e
      | (Inr api_result, tr) \<Rightarrow>
          (case enrich_loop net (n + requests_made tr) titles of
             Inl e \<Rightarrow> Inl e
           | Inr enriched_data \<Rightarrow>
               Inr (AList.update ''original_title'' title api_result # enriched_data)))"

text \<open>Lines 129 to 140: the titles to look up.\<close>

definition titles_to_process ::
  "(nat \<Rightarrow> nat list) \<Rightarrow> dataframe \<Rightarrow> string \<Rightarrow> int option \<Rightarrow> exn + pyval list" where
  "titles_to_process rng df title_column sample_size =
     (case unique (dropna (column_values df title_column)) of
        Inl e \<Rightarrow> Inl e
      | Inr unique_titles \<Rightarrow>
          (case sample_size of
             None \<Rightarrow> Inr unique_titles
           | Some k \<Rightarrow>
               if k \<noteq> 0 \<and> k < int (length unique_titles) then choice rng unique_titles k
               else Inr unique_titles))"

text \<open>Lines 177 to 180: the completeness pass.\<close>

definition fill_defaults :: "dataframe \<Rightarrow> dataframe" where
  "fill_defaults result_df =
     fold (\<lambda>cv df. if fst cv \<in> set (columns df) then fillna_column (fst cv) (snd cv) df else df)
          (get_default_data False) result_df"

text \<open>
  Lines 129 to 173: the lookups, the frame built from their records, the left join of the
  input with it and the removal of the \<^verbatim>\<open>original_title\<close> column.  This is
  \<^verbatim>\<open>result_df\<close> before the completeness pass.  Sleeping and logging are left out.
\<close>

definition merged_result ::
  "network \<Rightarrow> (nat \<Rightarrow> nat list) \<Rightarrow> dataframe \<Rightarrow> string \<Rightarrow> int option \<Rightarrow> exn + dataframe" where
  "merged_result net rng df title_column sample_size =
     (case titles_to_process rng df title_column sample_size of
        Inl e \<Rightarrow> Inl e
      | Inr titles \<Rightarrow>
          (case enrich_loop net 0 titles of
             Inl e \<Rightarrow> Inl e
           | Inr enriched_data \<Rightarrow>
               (case merge_left df (DataFrame enriched_data) title_column
                       ''original_title'' ''_api_dup'' of
                  Inl e \<Rightarrow> Inl e
                | Inr result_df \<Rightarrow>
                    if ''original_title'' \<in> set (columns result_df)
                    then Inr (drop_column ''original_title'' result_df)
                    else Inr result_df)))"

text \<open>
  The function returns a frame or raises; \<^verbatim>\<open>main\<close> tests its result against
  \<^verbatim>\<open>None\<close>, so the result is an optional frame here.
\<close>

definition enrich_dataset_with_api ::
  "network \<Rightarrow> (nat \<Rightarrow> nat list) \<Rightarrow> dataframe \<Rightarrow> string \<Rightarrow> int option \<Rightarrow> exn + dataframe option" where
  "enrich_dataset_with_api net rng df title_column sample_size =
     (if title_column \<notin> set (columns df) then Inr (Some df)
      else
        (case merged_result net rng df title_column sample_size of
           Inl e \<Rightarrow> Inl e
         | Inr result_df \<Rightarrow> Inr (Some (fill_defaults result_df))))"

text \<open>
  \<^verbatim>\<open>main\<close> of \<^verbatim>\<open>api_enrichment.py\<close>.  The input file is a parameter: \<open>None\<close> when
  neither path exists, the frame read from it otherwise.  The result is what the run
  writes to \<^verbatim>\<open>ML_Dataset_Enriched.csv\<close>: \<open>None\<close> when it halts without writing.
\<close>

definition api_enrichment_main ::
  "network \<Rightarrow> (nat \<Rightarrow> nat list) \<Rightarrow> dataframe option \<Rightarrow> exn + dataframe option" where
  "api_enrichment_main net rng input_file =
     (case input_file of
        None \<Rightarrow> Inr None
      | Some df \<Rightarrow>
          (case enrich_dataset_with_api net rng df ''Title'' None of
             Inl e \<Rightarrow> Inl e
           | Inr None \<Rightarrow> Inr None
           | Inr (Some enriched_df) \<Rightarrow> Inr (Some enriched_df)))"

section \<open>Google Books lookup (\<^verbatim>\<open>get_google_data.py\<close>)\<close>

subsection \<open>\<^verbatim>\<open>get_book_info_from_google\<close>\<close>

definition base_url :: string where
  "base_url = ''https://www.googleapis.com/books/v1/volumes''"

text \<open>
  What one \<^verbatim>\<open>try\<close> block does with the outcome of its request (lines 26 to 32 and 41 to
  47): \<open>Some v\<close> when the function returns \<open>v\<close>, \<open>None\<close> when control passes on, which
  it does on a status other than 200, on a body without \<^verbatim>\<open>items\<close> and on every
  exception (the \<^verbatim>\<open>except:\<close> is bare).
\<close>

definition first_volume :: "response \<Rightarrow> pyval option" where
  "first_volume r =
     (case r of
        Reply status body \<Rightarrow>
          if status = 200 then
            (case body of
               Some (PDict data) \<Rightarrow>
                 (case map_of data ''items'' of
                    Some items \<Rightarrow>
                      (case subscript0 items of
                         Some (PDict item) \<Rightarrow> map_of item ''volumeInfo''
                       | _ \<Rightarrow> None)
                  | None \<Rightarrow> None)
             | _ \<Rightarrow> None)
          else None
      | _ \<Rightarrow> None)"

text \<open>
  The result is the value returned (\<open>PNone\<close> for \<^verbatim>\<open>None\<close>) and the URLs requested, in
  order; \<open>n\<close> counts the requests of the run so far.
\<close>

definition get_book_info_from_google ::
  "network \<Rightarrow> nat \<Rightarrow> pyval \<Rightarrow> pyval \<Rightarrow> pyval \<Rightarrow> pyval \<times> string list" where
  "get_book_info_from_google net n isbn title author =
     (let by_isbn = (truthy isbn \<and> lower (py_str isbn) \<noteq> ''nan''
                       \<and> lower (py_str isbn) \<noteq> ''unknown'');
          clean_isbn = strip (remove_char CHR ''-'' (py_str isbn));
          url1 = base_url @ ''?q=isbn:'' @ clean_isbn;
          sent = (if by_isbn then [url1] else [])
      in case (if by_isbn then first_volume (net n url1) else None) of
           Some v \<Rightarrow> (v, sent)
         | None \<Rightarrow>
             if truthy title \<and> lower (py_str title) \<noteq> ''unknown'' then
               (let query = ''intitle:'' @ py_str title
                      @ (if truthy author \<and> lower (py_str author) \<noteq> ''unknown''
                         then ''+inauthor:'' @ py_str author else []);
                    url2 = base_url @ ''?q='' @ query @ ''&maxResults=1''
                in case first_volume (net (n + length sent) url2) of
                     Some v \<Rightarrow> (v, sent @ [url2])
                   | None \<Rightarrow> (PNone, sent @ [url2]))
             else (PNone, sent))"

subsection \<open>The loop of \<^verbatim>\<open>main\<close>\<close>

text \<open>
  The state of the loop of lines 84 to 129: the cache in memory, the content of the cache
  file (\<open>None\<close> while there is no file), the five lists of \<^verbatim>\<open>new_data\<close>, the row
  counter, the number of requests made, and the title keys for which
  \<^verbatim>\<open>get_book_info_from_google\<close> was called, in order.
\<close>

record loop_state =
  cache :: pydict
  cache_file :: "pydict option"
  new_data :: "(string \<times> pyval list) list"
  rows_processed :: nat
  requests :: nat
  lookups :: "string list"

definition init_state :: "pydict option \<Rightarrow> loop_state" where
  "init_state file =
     \<lparr>cache = (case file of None \<Rightarrow> [] | Some c \<Rightarrow> c),
      cache_file = file,
      new_data = [(''google_rating'', []), (''google_ratings_count'', []),
                  (''google_page_count'', []), (''google_categories'', []),
                  (''google_description'', [])],
      rows_processed = 0,
      requests = 0,
      lookups = []\<rparr>"

text \<open>\<^verbatim>\<open>v[k]\<close> for a string key: \<^verbatim>\<open>KeyError\<close> on a dictionary without it,
  \<^verbatim>\<open>TypeError\<close> on a value that is not a dictionary.\<close>

definition subscript_key :: "pyval \<Rightarrow> string \<Rightarrow> exn + pyval" where
  "subscript_key v k =
     (case v of
        PDict d \<Rightarrow> (case map_of d k of None \<Rightarrow> Inl KeyError | Some x \<Rightarrow> Inr x)
      | _ \<Rightarrow> Inl TypeError)"

text \<open>Lines 99 to 109.  \<^verbatim>\<open>info_raw.get\<close> and \<^verbatim>\<open>join\<close> are outside any \<^verbatim>\<open>try\<close>.\<close>

definition make_info :: "pyval \<Rightarrow> exn + pyval" where
  "make_info info_raw =
     (if truthy info_raw then
        (case info_raw of
           PDict d \<Rightarrow>
             (case comma_join (dict_get d ''categories'' (PList [PStr ''Unknown''])) of
                None \<Rightarrow> Inl TypeError
              | Some categories \<Rightarrow>
                  Inr (PDict [(''rating'', dict_get d ''averageRating'' (PInt 0)),
                              (''count'', dict_get d ''ratingsCount'' (PInt 0)),
                              (''pages'', dict_get d ''pageCount'' (PInt 0)),
                              (''categories'', categories),
                              (''desc'', dict_get d ''description'' (PStr []))]))
         | _ \<Rightarrow> Inl AttributeError)
      else Inr (PDict [(''rating'', PInt 0), (''count'', PInt 0), (''pages'', PInt 0),
                       (''categories'', PStr ''Unknown''), (''desc'', PStr [])]))"

text \<open>Lines 123 to 127: one \<^verbatim>\<open>append\<close> after the other, up to the first that raises.\<close>

definition info_columns :: "(string \<times> string) list" where
  "info_columns =
     [(''google_rating'', ''rating''), (''google_ratings_count'', ''count''),
      (''google_page_count'', ''pages''), (''google_categories'', ''categories''),
      (''google_description'', ''desc'')]"

definition append_to :: "string \<Rightarrow> pyval \<Rightarrow> (string \<times> pyval list) list \<Rightarrow> (string \<times> pyval list) list" where
  "append_to col v nd = map (\<lambda>cvs. if fst cvs = col then (fst cvs, snd cvs @ [v]) else cvs) nd"

fun append_fields ::
  "pyval \<Rightarrow> (string \<times> string) list \<Rightarrow> (string \<times> pyval list) list
     \<Rightarrow> (string \<times> pyval list) list \<times> exn option" where
  "append_fields info [] nd = (nd, None)"
| "append_fields info (ck # rest) nd =
     (case subscript_key info (snd ck) of
        Inl e \<Rightarrow> (nd, Some e)
      | Inr v \<Rightarrow> append_fields info rest (append_to (fst ck) v nd))"

text \<open>Lines 122 to 129, for the \<^verbatim>\<open>info\<close> of the row.\<close>

definition append_info :: "pyval \<Rightarrow> loop_state \<Rightarrow> loop_state \<times> exn option" where
  "append_info info s =
     (case append_fields info info_columns (new_data s) of
        (nd, Some e) \<Rightarrow> (s\<lparr>new_data := nd\<rparr>, Some e)
      | (nd, None) \<Rightarrow> (s\<lparr>new_data := nd, rows_processed := rows_processed s + 1\<rparr>, None))"

definition title_key :: "row \<Rightarrow> string" where
  "title_key r = strip (py_str (dict_get r ''Title'' (PStr ''Unknown'')))"

text \<open>
  One iteration.  The second component is the exception that ends the run, if any; the
  state is then the one at the raise.
\<close>

definition process_row :: "network \<Rightarrow> loop_state \<Rightarrow> row \<Rightarrow> loop_state \<times> exn option" where
  "process_row net s r =
     (case map_of (cache s) (title_key r) of
        Some info \<Rightarrow> append_info info s
      | None \<Rightarrow>
          (let isbn = dict_get r ''api_isbn'' (PStr []);
               author = dict_get r ''api_author'' (PStr []);
               found = get_book_info_from_google net (requests s) isbn (PStr (title_key r)) author;
               s1 = s\<lparr>requests := requests s + length (snd found),
                       lookups := lookups s @ [title_key r]\<rparr>
           in case make_info (fst found) of
                Inl e \<Rightarrow> (s1, Some e)
              | Inr info \<Rightarrow>
                  (let s2 = s1\<lparr>cache := AList.update (title_key r) info (cache s1)\<rparr>;
                       s3 = (if rows_processed s2 mod 50 = 0
                             then s2\<lparr>cache_file := Some (cache s2)\<rparr> else s2)
                   in append_info info s3)))"

fun process_rows :: "network \<Rightarrow> loop_state \<Rightarrow> row list \<Rightarrow> loop_state \<times> exn option" where
  "process_rows net s [] = (s, None)"
| "process_rows net s (r # rs) =
     (case process_row net s r of
        (s', Some e) \<Rightarrow> (s', Some e)
      | (s', None) \<Rightarrow> process_rows net s' rs)"

text \<open>The cache entries that a crash now would lose: those the cache file does not hold.\<close>

definition unflushed :: "loop_state \<Rightarrow> nat" where
  "unflushed s =
     length (filter (\<lambda>kv. case cache_file s of
                             None \<Rightarrow> True
                           | Some f \<Rightarrow> map_of f (fst kv) \<noteq> Some (snd kv)) (cache s))"

text \<open>
  \<^verbatim>\<open>main\<close>: the input frame (\<open>None\<close> when the file is missing) and the cache file as
  found.  A run that ends normally writes the cache once more and attaches the five
  columns; the result is the cache file left behind and the frame written.
\<close>

definition assign_column :: "string \<Rightarrow> pyval list \<Rightarrow> dataframe \<Rightarrow> dataframe" where
  "assign_column c vs df =
     \<lparr>columns = (if c \<in> set (columns df) then columns df else columns df @ [c]),
      rows = map (\<lambda>rv. AList.update c (snd rv) (fst rv)) (zip (rows df) vs)\<rparr>"

definition get_google_data_main ::
  "network \<Rightarrow> dataframe option \<Rightarrow> pydict option \<Rightarrow> exn + pydict option \<times> dataframe option" where
  "get_google_data_main net input_file file =
     (case input_file of
        None \<Rightarrow> Inr (file, None)
      | Some df \<Rightarrow>
          (case process_rows net (init_state file) (rows df) of
             (s, Some e) \<Rightarrow> Inl e
           | (s, None) \<Rightarrow>
               Inr (Some (cache s),
                    Some (fold (\<lambda>cvs. assign_column (fst cvs) (snd cvs)) (new_data s) df))))"

subsection \<open>Names used in the statements about the cache\<close>

text \<open>
  \<open>field_of c key k\<close> is field \<open>k\<close> of the record that the cache \<open>c\<close> holds for
  \<open>key\<close>, and \<open>served_columns c rs\<close> are the five lists of \<^verbatim>\<open>new_data\<close> that come
  from looking the title key of every row of \<open>rs\<close> up in \<open>c\<close>.  A record has its
  fields when it is a dictionary with the five keys that lines 123 to 127 read; a loaded
  cache is in order when all its records have.  The volumes of a network are in order
  when \<open>make_info\<close> raises on none of them.
\<close>

definition field_of :: "pydict \<Rightarrow> string \<Rightarrow> string \<Rightarrow> pyval" where
  "field_of c key k = (case map_of c key of Some (PDict d) \<Rightarrow> dict_get d k PNone | _ \<Rightarrow> PNone)"

definition served_columns :: "pydict \<Rightarrow> row list \<Rightarrow> (string \<times> pyval list) list" where
  "served_columns c rs =
     map (\<lambda>ck. (fst ck, map (\<lambda>r. field_of c (title_key r) (snd ck)) rs)) info_columns"

fun has_fields :: "pyval \<Rightarrow> bool" where
  "has_fields (PDict d) = list_all (\<lambda>ck. map_of d (snd ck) \<noteq> None) info_columns"
| "has_fields v = False"

definition cache_ok :: "pydict \<Rightarrow> bool" where
  "cache_ok c = list_all (\<lambda>kv. has_fields (snd kv)) c"

definition volumes_ok :: "network \<Rightarrow> bool" where
  "volumes_ok net = (\<forall>k u v. first_volume (net k u) = Some v \<longrightarrow> (\<exists>info. make_info v = Inr info))"

section \<open>Names used in the statements\<close>

text \<open>
  The declared enrichment attributes are the keys of the default record; a record of the
  enrichment table has them and \<^verbatim>\<open>original_title\<close>.  \<open>right_columns\<close> are the labels the
  join gives to the columns of the enrichment table, and \<open>fill_step\<close> is one round of the
  loop of the completeness pass.  A title cell read from a text column is a string or
  missing.
\<close>

definition attr_names :: "string list" where
  "attr_names = map fst (get_default_data False)"

definition record_keys :: "string list" where
  "record_keys = attr_names @ [''original_title'']"

definition right_columns :: "dataframe \<Rightarrow> string \<Rightarrow> string list" where
  "right_columns df title_column =
     map (\<lambda>c. if c \<in> set (columns df) then c @ ''_api_dup'' else c)
       (filter (\<lambda>c. \<not> (title_column = ''original_title'' \<and> c = ''original_title''))
          record_keys)"

definition fill_step :: "string \<times> pyval \<Rightarrow> dataframe \<Rightarrow> dataframe" where
  "fill_step cv df =
     (if fst cv \<in> set (columns df) then fillna_column (fst cv) (snd cv) df else df)"

fun text_or_missing :: "pyval \<Rightarrow> bool" where
  "text_or_missing (PStr s) = True"
| "text_or_missing PNaN = True"
| "text_or_missing PNone = True"
| "text_or_missing v = False"

section \<open>Properties of the Open Library lookup\<close>

lemma strip_nan: "strip ''nan'' = ''nan''"
  by (simp add: strip_def is_space_def)

lemma lower_nan: "lower ''nan'' = ''nan''"
  by (simp add: lower_def lower_char_def)

lemma strip_Dune: "strip ''Dune'' = ''Dune''"
  by (simp add: strip_def is_space_def)

lemma lower_Dune: "lower ''Dune'' \<noteq> ''nan''"
  by (simp add: lower_def lower_char_def)

text \<open>
  C9. A title that is empty once stripped, or whose string form is \<^verbatim>\<open>nan\<close> (also in
  other letter cases and with spaces around), gets the default record with the discovery
  flag false, and the lookup makes no request and no other event.
\<close>

theorem blank_title_short_circuit:
  assumes "strip (py_str title) = [] \<or> py_str title = ''nan''
           \<or> lower (strip (py_str title)) = ''nan''"
  shows "search_book_by_title net n title max_retries = (Inr (get_default_data False), [])
       \<and> map_of (get_default_data False) ''api_found'' = Some (PBool False)"
  using assms
  by (auto simp: search_book_by_title_def Let_def strip_nan lower_nan get_default_data_def)

theorem blank_title_short_circuit_witness:
  "(strip (py_str PNaN) = [] \<or> py_str PNaN = ''nan''
      \<or> lower (strip (py_str PNaN)) = ''nan'')
   \<and> search_book_by_title (\<lambda>k q. ConnError) 0 PNaN 3 = (Inr (get_default_data False), [])
   \<and> map_of (get_default_data False) ''api_found'' = Some (PBool False)"
proof -
  have h: "strip (py_str PNaN) = [] \<or> py_str PNaN = ''nan''
      \<or> lower (strip (py_str PNaN)) = ''nan''" by simp
  from h blank_title_short_circuit [OF h] show ?thesis by blast
qed

lemma search_loop_timeouts:
  assumes "\<forall>k q. net k q = Timeout"
  shows "search_loop net n title q m a =
           (Inr (get_default_data False), timeout_trace q (nat (m - a)))"
  using assms
proof (induction net n title q m a rule: search_loop.induct)
  case (1 net n title q m a)
  show ?case
  proof (cases "a < m")
    case True
    then have n: "nat (m - a) = Suc (nat (m - (a + 1)))" by simp
    have k: "(0 < nat (m - (a + 1))) = (a < m - 1)" by auto
    have t: "net n q = Timeout" using "1.prems" by simp
    have ih: "search_loop net (Suc n) title q m (a + 1) =
        (Inr (get_default_data False), timeout_trace q (nat (m - (a + 1))))"
      using "1.IH"(1) [OF True t "1.prems"] .
    show ?thesis
      by (subst search_loop.simps) (simp add: True t ih n k prepend_def)
  next
    case False
    then show ?thesis by (subst search_loop.simps) simp
  qed
qed

lemma timeout_trace_shape:
  "timeout_trace q (Suc k) = Request q # concat (replicate k [Sleep 2, Request q])"
  by (induction k) auto

lemma requests_made_shape:
  "requests_made (Request q # concat (replicate k [Sleep 2, Request q])) = Suc k"
  by (induction k) (auto simp: requests_made_def)

text \<open>
  C3, as stated, fails on a blank title: with every request timing out and
  \<open>max_retries = 3\<close> the lookup of the title \<^verbatim>\<open>' '\<close> makes no request at all.
\<close>

theorem retry_bound_blank_counterexample:
  "(\<forall>k q. (\<lambda>k q. Timeout) k q = Timeout) \<and> (1::int) \<le> 3 \<and>
   requests_made (snd (search_book_by_title (\<lambda>k q. Timeout) 0 (PStr '' '') 3)) \<noteq> nat 3"
  by (simp add: search_book_by_title_def strip_def is_space_def requests_made_def)

text \<open>
  C3, amended. For a title that is neither blank nor \<^verbatim>\<open>nan\<close> and \<open>max_retries \<ge> 1\<close>,
  when every request times out the lookup makes exactly \<open>max_retries\<close> requests, sleeps
  two seconds between consecutive requests and not after the last, and returns the default
  record; the function is total and its result is a value, not an exception.
\<close>

theorem retry_bound:
  assumes "\<forall>k q. net k q = Timeout" and "1 \<le> max_retries"
    and "strip (py_str title) \<noteq> []" and "lower (strip (py_str title)) \<noteq> ''nan''"
  shows "search_book_by_title net n title max_retries =
           (Inr (get_default_data False),
            Request (strip (py_str title)) #
              concat (replicate (nat (max_retries - 1))
                        [Sleep 2, Request (strip (py_str title))]))
         \<and> requests_made (snd (search_book_by_title net n title max_retries)) = nat max_retries"
proof -
  from assms(2) have m: "nat (max_retries - 0) = Suc (nat (max_retries - 1))" by simp
  have "search_book_by_title net n title max_retries =
      search_loop net n title (strip (py_str title)) max_retries 0"
    using assms(3,4) by (simp add: search_book_by_title_def Let_def)
  also have "\<dots> = (Inr (get_default_data False),
      timeout_trace (strip (py_str title)) (nat (max_retries - 0)))"
    using search_loop_timeouts [OF assms(1)] by blast
  finally have e: "search_book_by_title net n title max_retries =
      (Inr (get_default_data False),
       Request (strip (py_str title)) #
         concat (replicate (nat (max_retries - 1)) [Sleep 2, Request (strip (py_str title))]))"
    by (simp only: m timeout_trace_shape)
  show ?thesis
    using assms(2) by (simp only: e snd_conv requests_made_shape) simp
qed

theorem retry_bound_witness:
  "(\<forall>k q. (\<lambda>k q. Timeout) k q = Timeout) \<and> (1::int) \<le> 3
   \<and> strip (py_str (PStr ''Dune'')) \<noteq> [] \<and> lower (strip (py_str (PStr ''Dune''))) \<noteq> ''nan''
   \<and> search_book_by_title (\<lambda>k q. Timeout) 0 (PStr ''Dune'') 3 =
        (Inr (get_default_data False),
         [Request ''Dune'', Sleep 2, Request ''Dune'', Sleep 2, Request ''Dune''])
   \<and> requests_made (snd (search_book_by_title (\<lambda>k q. Timeout) 0 (PStr ''Dune'') 3)) = 3"
proof -
  have h1: "\<forall>k q. (\<lambda>k q. Timeout) k q = Timeout" by simp
  have h2: "(1::int) \<le> 3" by simp
  have h3: "strip (py_str (PStr ''Dune'')) \<noteq> []" by (simp add: strip_Dune)
  have h4: "lower (strip (py_str (PStr ''Dune''))) \<noteq> ''nan''"
    by (simp add: strip_Dune lower_Dune)
  note c = retry_bound [OF h1 h2 h3 h4, of 0]
  show ?thesis
    using h1 h2 h3 h4 c by (simp add: strip_Dune numeral_2_eq_2 requests_made_def)
qed

lemma search_loop_exhausted:
  assumes "\<forall>k q. exhausts title (net k q)"
  shows "fst (search_loop net n title q m a) = Inr (get_default_data False)"
  using assms
proof (induction net n title q m a rule: search_loop.induct)
  case (1 net n title q m a)
  show ?case
  proof (cases "a < m")
    case False
    then show ?thesis by (subst search_loop.simps) simp
  next
    case True
    have ex: "exhausts title (net n q)" using "1.prems" by simp
    show ?thesis
    proof (cases "net n q")
      case Timeout
      from "1.IH"(1) [OF True Timeout "1.prems"] show ?thesis
        by (subst search_loop.simps) (simp add: True Timeout prepend_def)
    next
      case ConnError
      with ex have sl: "sliceable title" by (simp add: exhausts_def)
      from "1.IH"(2) [OF True ConnError sl "1.prems"] show ?thesis
        by (subst search_loop.simps)
           (simp add: True ConnError sl prepend_def)
    next
      case (Reply status body)
      show ?thesis
      proof (cases "status = 200")
        case ok: True
        with ex Reply have rd: "Option.bind body read_docs = None" and sl: "sliceable title"
          by (simp_all add: exhausts_def)
        from "1.IH"(3) [OF True Reply ok rd sl "1.prems"] show ?thesis
          by (subst search_loop.simps)
             (simp add: True Reply ok rd sl prepend_def)
      next
        case nok: False
        from "1.IH"(4) [OF True Reply nok "1.prems"] show ?thesis
          by (subst search_loop.simps)
             (simp add: True Reply nok prepend_def)
      qed
    qed
  qed
qed

lemma search_loop_no_match:
  assumes "net n q = Reply 200 (Some (PDict d))" and "\<not> truthy (dict_get d ''docs'' PNone)"
  shows "fst (search_loop net n title q m a) = Inr (get_default_data False)"
  using assms by (subst search_loop.simps) (simp add: read_docs_def Let_def)

text \<open>
  C6, as stated, fails: the value returned for a successful response with an empty
  result set and the value returned after three timeouts are the same value.
\<close>

theorem no_match_distinct_counterexample:
  "fst (search_book_by_title
          (\<lambda>k q. Reply 200 (Some (PDict [(''numFound'', PInt 0), (''docs'', PList [])])))
          0 (PStr ''Unknown Book XYZ123'') 3)
   = fst (search_book_by_title (\<lambda>k q. Timeout) 0 (PStr ''Unknown Book XYZ123'') 3)"
  by code_simp

text \<open>
  C6, amended. For every title the lookup returns the same value, the default record
  with the discovery flag false, when the source answers with status 200 and a missing
  or empty \<^verbatim>\<open>docs\<close> and when every attempt is used up by a timeout, a status other
  than 200 or an error: "no match" and "failure" are not distinguishable.
\<close>

theorem no_match_same_as_failure:
  assumes "net1 n (strip (py_str title)) = Reply 200 (Some (PDict d))"
    and "\<not> truthy (dict_get d ''docs'' PNone)"
    and "\<forall>k q. exhausts title (net2 k q)"
  shows "fst (search_book_by_title net1 n title max_retries) = Inr (get_default_data False)
       \<and> fst (search_book_by_title net2 n title max_retries) = Inr (get_default_data False)"
  using search_loop_no_match [of net1 n "strip (py_str title)" d title max_retries 0,
      OF assms(1,2)]
    search_loop_exhausted [OF assms(3)]
  by (simp add: search_book_by_title_def Let_def)

theorem no_match_same_as_failure_witness:
  "(\<lambda>k q. Reply 200 (Some (PDict [(''docs'', PList [])]))) 0 (strip (py_str (PStr ''Dune'')))
      = Reply 200 (Some (PDict [(''docs'', PList [])]))
   \<and> \<not> truthy (dict_get [(''docs'', PList [])] ''docs'' PNone)
   \<and> (\<forall>k q. exhausts (PStr ''Dune'') ((\<lambda>k q. if even k then ConnError else Reply 503 None) k q))
   \<and> fst (search_book_by_title (\<lambda>k q. Reply 200 (Some (PDict [(''docs'', PList [])])))
             0 (PStr ''Dune'') 3) = Inr (get_default_data False)
   \<and> fst (search_book_by_title (\<lambda>k q. if even k then ConnError else Reply 503 None)
             0 (PStr ''Dune'') 3) = Inr (get_default_data False)"
proof -
  have h1: "(\<lambda>k q. Reply 200 (Some (PDict [(''docs'', PList [])]))) 0
              (strip (py_str (PStr ''Dune''))) = Reply 200 (Some (PDict [(''docs'', PList [])]))"
    by simp
  have h2: "\<not> truthy (dict_get [(''docs'', PList [])] ''docs'' PNone)"
    by (simp add: dict_get_def)
  have h3: "\<forall>k q. exhausts (PStr ''Dune'')
              ((\<lambda>k q. if even k then ConnError else Reply 503 None) k q)"
    by (simp add: exhausts_def)
  note c = no_match_same_as_failure
    [of "\<lambda>k q. Reply 200 (Some (PDict [(''docs'', PList [])]))" 0 "PStr ''Dune''"
        "[(''docs'', PList [])]" "\<lambda>k q. if even k then ConnError else Reply 503 None" 3]
  from c [OF h1 h2 h3] h1 h2 h3 show ?thesis by blast
qed

text \<open>
  C10. The source answers the title \<^verbatim>\<open>Dune\<close> with a document that has a key and a
  title and nothing else.  The record has the discovery flag true; the attributes
  \<^verbatim>\<open>api_authors_all\<close>, \<^verbatim>\<open>api_publisher\<close> and \<^verbatim>\<open>api_publishers_all\<close> are
  \<^verbatim>\<open>'Unknown'\<close>, where the default record has \<^verbatim>\<open>'Unknown Author'\<close> and
  \<^verbatim>\<open>'Unknown Publisher'\<close>; every other omitted field gets the constant of the default
  record.
\<close>

theorem found_record_fallbacks:
  "search_book_by_title
     (\<lambda>k q. Reply 200 (Some (PDict [(''docs'',
        PList [PDict [(''key'', PStr ''/works/OL893415W''), (''title'', PStr ''Dune'')]])])))
     0 (PStr ''Dune'') 3
   = (Inr [(''api_found'', PBool True),
           (''api_title'', PStr ''Dune''),
           (''api_author'', PStr ''Unknown Author''),
           (''api_authors_all'', PStr ''Unknown''),
           (''api_first_publish_year'', PInt 2020),
           (''api_isbn'', PInt 0),
           (''api_isbn_all'', PStr ''0''),
           (''api_publisher'', PStr ''Unknown''),
           (''api_publishers_all'', PStr ''Unknown''),
           (''api_language'', PStr ''en''),
           (''api_number_of_pages'', PInt 200),
           (''api_subject'', PStr ''General''),
           (''api_edition_count'', PInt 1),
           (''api_has_fulltext'', PBool False),
           (''api_search_url'', PStr ''https://openlibrary.org/works/OL893415W'')],
      [Request ''Dune''])
   \<and> map_of (get_default_data False) ''api_authors_all'' = Some (PStr ''Unknown Author'')
   \<and> map_of (get_default_data False) ''api_publisher'' = Some (PStr ''Unknown Publisher'')
   \<and> map_of (get_default_data False) ''api_publishers_all'' = Some (PStr ''Unknown Publisher'')"
  by code_simp

section \<open>Properties of the enrichment of a dataset\<close>

lemma attr_names_eq:
  "attr_names = [''api_found'', ''api_title'', ''api_author'', ''api_authors_all'',
     ''api_first_publish_year'', ''api_isbn'', ''api_isbn_all'', ''api_publisher'',
     ''api_publishers_all'', ''api_language'', ''api_number_of_pages'', ''api_subject'',
     ''api_edition_count'', ''api_has_fulltext'', ''api_search_url'']"
  by (simp add: attr_names_def get_default_data_def)

lemma default_keys: "map fst (get_default_data found) = attr_names"
  by (simp add: attr_names_def get_default_data_def)

lemma found_record_keys:
  assumes "found_record b = Some r"
  shows "map fst r = attr_names"
proof (cases b)
  case (PDict book)
  with assms show ?thesis
    unfolding found_record_def
    by (auto simp: bind_eq_Some_conv attr_names_eq)
qed (use assms in \<open>simp_all add: found_record_def\<close>)

lemma read_docs_keys:
  assumes "read_docs data = Some r"
  shows "map fst r = attr_names"
  using assms
  by (auto simp: read_docs_def Let_def default_keys bind_eq_Some_conv
      split: pyval.splits if_splits option.splits dest: found_record_keys)

lemma search_loop_result:
  assumes "fst (search_loop net n title q m a) = Inr r"
  shows "r = get_default_data False \<or> (\<exists>data. read_docs data = Some r)"
  using assms
proof (induction net n title q m a rule: search_loop.induct)
  case (1 net n title q m a)
  show ?case
  proof (cases "a < m")
    case False
    with "1.prems" show ?thesis by (subst (asm) search_loop.simps) simp
  next
    case True
    show ?thesis
    proof (cases "net n q")
      case Timeout
      with True "1.prems" have "fst (search_loop net (Suc n) title q m (a + 1)) = Inr r"
        by (subst (asm) search_loop.simps) (simp add: prepend_def)
      with "1.IH"(1) [OF True Timeout] show ?thesis .
    next
      case ConnError
      show ?thesis
      proof (cases "sliceable title")
        case sl: True
        with ConnError True "1.prems"
        have "fst (search_loop net (Suc n) title q m (a + 1)) = Inr r"
          by (subst (asm) search_loop.simps) (simp add: prepend_def)
        with "1.IH"(2) [OF True ConnError sl] show ?thesis .
      next
        case False
        with ConnError True "1.prems" show ?thesis
          by (subst (asm) search_loop.simps) simp
      qed
    next
      case (Reply status body)
      show ?thesis
      proof (cases "status = 200")
        case nok: False
        with Reply True "1.prems"
        have "fst (search_loop net (Suc n) title q m (a + 1)) = Inr r"
          by (subst (asm) search_loop.simps) (simp add: prepend_def)
        with "1.IH"(4) [OF True Reply nok] show ?thesis .
      next
        case ok: True
        show ?thesis
        proof (cases "Option.bind body read_docs")
          case (Some r')
          with ok Reply True "1.prems" have "r' = r"
            by (subst (asm) search_loop.simps) simp
          with Some show ?thesis by (auto simp: bind_eq_Some_conv)
        next
          case None
          show ?thesis
          proof (cases "sliceable title")
            case sl: True
            with None ok Reply True "1.prems"
            have "fst (search_loop net (Suc n) title q m (a + 1)) = Inr r"
              by (subst (asm) search_loop.simps) (simp add: prepend_def)
            with "1.IH"(3) [OF True Reply ok None sl] show ?thesis .
          next
            case False
            with None ok Reply True "1.prems" show ?thesis
              by (subst (asm) search_loop.simps) simp
          qed
        qed
      qed
    qed
  qed
qed

lemma search_keys:
  assumes "search_book_by_title net n title m = (Inr r, tr)"
  shows "map fst r = attr_names"
proof -
  from assms have "fst (search_book_by_title net n title m) = Inr r" by simp
  then have "r = get_default_data False \<or> (\<exists>data. read_docs data = Some r)"
    by (auto simp: search_book_by_title_def Let_def
        split: if_splits dest: search_loop_result)
  then show ?thesis by (auto simp: default_keys dest: read_docs_keys)
qed

lemma distinct_record_keys: "distinct record_keys"
  by (simp add: record_keys_def attr_names_eq)

lemma original_title_not_attr: "''original_title'' \<notin> set attr_names"
  by (simp add: attr_names_eq)

lemma update_fresh:
  "k \<notin> set (map fst al) \<Longrightarrow> AList.update k v al = al @ [(k, v)]"
  by (induction al) auto

lemma cell_append_fresh:
  "k \<notin> set (map fst al) \<Longrightarrow> cell (al @ [(k, v)]) k = v"
  by (induction al) (auto simp: cell_def dict_get_def)

lemma enrich_loop_records:
  assumes "enrich_loop net n titles = Inr records"
  shows "map (\<lambda>r. cell r ''original_title'') records = titles
       \<and> list_all (\<lambda>r. map fst r = record_keys) records"
  using assms
proof (induction titles arbitrary: n records)
  case Nil
  then show ?case by simp
next
  case (Cons title titles)
  obtain res tr where s: "search_book_by_title net n title 3 = (res, tr)"
    by (cases "search_book_by_title net n title 3")
  with Cons.prems obtain api_result where r: "res = Inr api_result"
    by (cases res) auto
  from Cons.prems s r obtain rest where
    rest: "enrich_loop net (n + requests_made tr) titles = Inr rest"
    and recs: "records = AList.update ''original_title'' title api_result # rest"
    by (auto split: sum.splits)
  from s r have k: "map fst api_result = attr_names" by (auto dest: search_keys)
  then have fresh: "''original_title'' \<notin> set (map fst api_result)"
    by (simp add: original_title_not_attr)
  from Cons.IH [OF rest] recs k fresh show ?case
    by (simp add: update_fresh cell_append_fresh record_keys_def)
qed

lemma rebuild_row:
  assumes "distinct (map fst d)"
  shows "map (\<lambda>c. (c, dict_get d c PNaN)) (map fst d) = d"
proof -
  have "dict_get d (fst kv) PNaN = snd kv" if "kv \<in> set d" for kv
  proof -
    from that have "map_of d (fst kv) = Some (snd kv)"
      using map_of_is_SomeI [OF assms, of "fst kv" "snd kv"] by simp
    then show ?thesis by (simp add: dict_get_def)
  qed
  then have "map (\<lambda>kv. (fst kv, dict_get d (fst kv) PNaN)) d = map (\<lambda>kv. kv) d"
    by (intro map_cong) auto
  then show ?thesis by (simp add: comp_def)
qed

lemma union_keys_uniform:
  assumes "records \<noteq> []" and "list_all (\<lambda>r. map fst r = K) records" and "distinct K"
  shows "union_keys records = K"
proof -
  from assms(1) obtain r rs where rec: "records = r # rs" by (cases records) auto
  with assms(2) have r: "map fst r = K" and rs: "list_all (\<lambda>r. map fst r = K) rs" by simp_all
  from rs have sub: "set (concat (map (map fst) rs)) \<subseteq> set K"
    by (induction rs) auto
  have "remdups (rev (concat (map (map fst) records)))
      = remdups (rev (concat (map (map fst) rs)) @ rev K)"
    by (simp add: rec r)
  also have "\<dots> = remdups (rev K)"
    using sub by (intro remdups_append) simp
  also have "remdups (rev K) = rev K"
    using assms(3) by (simp add: distinct_remdups_id)
  finally show ?thesis by (simp add: union_keys_def)
qed

lemma DataFrame_uniform:
  assumes "records \<noteq> []" and "list_all (\<lambda>r. map fst r = K) records" and "distinct K"
  shows "DataFrame records = \<lparr>columns = K, rows = records\<rparr>"
proof -
  have "map (\<lambda>d. map (\<lambda>c. (c, dict_get d c PNaN)) K) records = records"
    using assms(2,3)
  proof (induction records)
    case Nil
    then show ?case by simp
  next
    case (Cons d ds)
    then have "map (\<lambda>c. (c, dict_get d c PNaN)) K = d"
      using rebuild_row [of d] by auto
    with Cons show ?case by simp
  qed
  then show ?thesis
    by (simp add: DataFrame_def Let_def union_keys_uniform [OF assms])
qed

lemma unique_from_keys:
  "distinct (map py_key (unique_from seen vs))
   \<and> set (map py_key (unique_from seen vs)) \<inter> set seen = {}"
  by (induction vs arbitrary: seen) (auto, force+)

lemma unique_from_subset: "set (unique_from seen vs) \<subseteq> set vs"
  by (induction vs arbitrary: seen) auto

lemma unique_from_nonempty: "vs \<noteq> [] \<Longrightarrow> unique_from [] vs \<noteq> []"
  by (cases vs) auto

lemma valid_rng_length: "valid_rng rng \<Longrightarrow> length (rng m) = m"
  by (metis valid_rng_def distinct_card card_lessThan)

lemma distinct_pick:
  assumes "distinct (map f xs)" and "distinct idxs" and "set idxs \<subseteq> {..<length xs}"
  shows "distinct (map f (map (\<lambda>i. xs ! i) idxs))"
proof -
  have inj: "inj_on (\<lambda>i. map f xs ! i) (set idxs)"
    using assms(1,3) by (intro inj_on_nth) auto
  have eq: "map f (map (\<lambda>i. xs ! i) idxs) = map (\<lambda>i. map f xs ! i) idxs"
    using assms(3) by auto
  have "distinct (map (\<lambda>i. map f xs ! i) idxs)"
    using inj assms(2) by (simp only: distinct_map)
  then show ?thesis by (simp only: eq)
qed

lemma choice_props:
  assumes "valid_rng rng" and "choice rng xs k = Inr ys" and "distinct (map py_key xs)"
  shows "distinct (map py_key ys) \<and> set ys \<subseteq> set xs \<and> (0 < k \<and> k < int (length xs) \<longrightarrow> ys \<noteq> [])"
proof -
  let ?idxs = "take (nat k) (rng (length xs))"
  from assms(2) have ys: "ys = map (\<lambda>i. xs ! i) ?idxs" and k: "0 \<le> k"
    by (auto simp: choice_def split: if_splits)
  from assms(1) have d: "distinct ?idxs" and s: "set ?idxs \<subseteq> {..<length xs}"
    by (auto simp: valid_rng_def dest: in_set_takeD)
  have "length ?idxs = min (nat k) (length xs)"
    by (simp add: valid_rng_length [OF assms(1)] min.commute)
  then have ne: "0 < k \<and> k < int (length xs) \<longrightarrow> ys \<noteq> []"
    unfolding ys by (auto simp del: length_take)
  from s have "set ys \<subseteq> set xs" unfolding ys by auto
  with distinct_pick [OF assms(3) d s] ne show ?thesis by (simp add: ys)
qed

lemma titles_to_process_props:
  assumes "valid_rng rng" and "titles_to_process rng df title_column sample_size = Inr titles"
  shows "distinct (map py_key titles)
       \<and> set titles \<subseteq> set (dropna (column_values df title_column))
       \<and> list_all hashable (dropna (column_values df title_column))
       \<and> (dropna (column_values df title_column) \<noteq> [] \<longrightarrow> titles \<noteq> [])"
proof -
  let ?vs = "dropna (column_values df title_column)"
  let ?u = "unique_from [] ?vs"
  from assms(2) have h: "list_all hashable ?vs" and u: "unique ?vs = Inr ?u"
    by (auto simp: titles_to_process_def unique_def split: if_splits sum.splits)
  have du: "distinct (map py_key ?u)" using unique_from_keys by blast
  have su: "set ?u \<subseteq> set ?vs" by (rule unique_from_subset)
  have nu: "?vs \<noteq> [] \<longrightarrow> ?u \<noteq> []" using unique_from_nonempty by blast
  show ?thesis
  proof (cases "\<exists>k. sample_size = Some k \<and> k \<noteq> 0 \<and> k < int (length ?u)")
    case False
    with assms(2) u have "titles = ?u"
      by (auto simp: titles_to_process_def split: option.splits if_splits)
    with du su nu h show ?thesis by simp
  next
    case True
    then obtain k where k: "sample_size = Some k" "k \<noteq> 0" "k < int (length ?u)" by blast
    with assms(2) u have c: "choice rng ?u k = Inr titles"
      by (simp add: titles_to_process_def)
    then have "0 \<le> k" by (auto simp: choice_def split: if_splits)
    with k have "0 < k \<and> k < int (length ?u)" by simp
    with choice_props [OF assms(1) c du] su h show ?thesis by auto
  qed
qed

lemma titles_to_process_returns:
  assumes "list_all hashable (dropna (column_values df title_column))"
    and "(case sample_size of None \<Rightarrow> True | Some k \<Rightarrow> 0 \<le> k)"
  shows "\<exists>titles. titles_to_process rng df title_column sample_size = Inr titles"
  using assms
  by (auto simp: titles_to_process_def unique_def choice_def split: option.splits)

lemma search_loop_returns:
  assumes "sliceable title"
  shows "\<exists>r. fst (search_loop net n title q m a) = Inr r"
  using assms
proof (induction net n title q m a rule: search_loop.induct)
  case (1 net n title q m a)
  show ?case
  proof (cases "a < m")
    case False
    then show ?thesis by (subst search_loop.simps) simp
  next
    case True
    note sl = "1.prems"
    show ?thesis
    proof (cases "net n q")
      case Timeout
      from "1.IH"(1) [OF True Timeout sl] show ?thesis
        by (subst search_loop.simps) (simp add: True Timeout prepend_def)
    next
      case ConnError
      from "1.IH"(2) [OF True ConnError sl sl] show ?thesis
        by (subst search_loop.simps)
           (simp add: True ConnError sl prepend_def)
    next
      case (Reply status body)
      show ?thesis
      proof (cases "status = 200")
        case nok: False
        from "1.IH"(4) [OF True Reply nok sl] show ?thesis
          by (subst search_loop.simps)
             (simp add: True Reply nok prepend_def)
      next
        case ok: True
        show ?thesis
        proof (cases "Option.bind body read_docs")
          case None
          from "1.IH"(3) [OF True Reply ok None sl sl] show ?thesis
            by (subst search_loop.simps)
               (simp add: True Reply ok None sl prepend_def)
        next
          case (Some r)
          then show ?thesis
            by (subst search_loop.simps) (simp add: True Reply ok)
        qed
      qed
    qed
  qed
qed

lemma search_returns:
  assumes "sliceable title"
  shows "\<exists>r tr. search_book_by_title net n title m = (Inr r, tr)"
proof -
  have "\<exists>r. fst (search_book_by_title net n title m) = Inr r"
    using search_loop_returns [OF assms]
    by (simp add: search_book_by_title_def Let_def)
  then show ?thesis by (metis prod.collapse)
qed

lemma enrich_loop_returns:
  assumes "list_all sliceable titles"
  shows "\<exists>records. enrich_loop net n titles = Inr records"
  using assms
proof (induction titles arbitrary: n)
  case Nil
  then show ?case by simp
next
  case (Cons title titles)
  then obtain r tr where s: "search_book_by_title net n title 3 = (Inr r, tr)"
    using search_returns [of title net n 3] by auto
  from Cons obtain rest where "enrich_loop net (n + requests_made tr) titles = Inr rest"
    by auto
  with s show ?case by simp
qed

lemma filter_key_at_most_one:
  "distinct (map f xs) \<Longrightarrow> length (filter (\<lambda>x. f x = y) xs) \<le> 1"
proof (induction xs)
  case Nil
  then show ?case by simp
next
  case (Cons x xs)
  show ?case
  proof (cases "f x = y")
    case True
    from Cons.prems have "f x \<notin> f ` set xs" by simp
    with True have "\<forall>z \<in> set xs. f z \<noteq> y" by blast
    then have "filter (\<lambda>x. f x = y) xs = []"
      by (simp add: filter_empty_conv)
    with True show ?thesis by simp
  next
    case False
    with Cons show ?thesis by simp
  qed
qed

lemma matches_at_most_one:
  assumes "distinct (map py_key (map (\<lambda>r. cell r k) records))"
    and "list_all (\<lambda>r. \<not> isna (cell r k)) records"
  shows "length (filter (\<lambda>r. keys_match a (cell r k)) records) \<le> 1"
proof (cases "isna a")
  case True
  with assms(2) have "filter (\<lambda>r. keys_match a (cell r k)) records = []"
    by (auto simp: filter_empty_conv keys_match_def list_all_iff)
  then show ?thesis by simp
next
  case False
  with assms(2) have "filter (\<lambda>r. keys_match a (cell r k)) records
      = filter (\<lambda>r. (py_key \<circ> (\<lambda>r. cell r k)) r = py_key a) records"
    by (intro filter_cong) (auto simp: keys_match_def list_all_iff)
  moreover from assms(1) have "distinct (map (py_key \<circ> (\<lambda>r. cell r k)) records)" by simp
  ultimately show ?thesis
    using filter_key_at_most_one [of "py_key \<circ> (\<lambda>r. cell r k)" records "py_key a"] by simp
qed

lemma concat_singletons:
  assumes "\<And>l. l \<in> set ls \<Longrightarrow> E l = [l @ h l]"
  shows "concat (map E ls) = map (\<lambda>lp. fst lp @ snd lp) (zip ls (map h ls))"
  using assms by (induction ls) auto

lemma merge_enriched:
  assumes tc: "title_column \<in> set (columns df)"
    and keys: "list_all (\<lambda>r. map fst r = record_keys) records"
    and d: "distinct (map py_key (map (\<lambda>r. cell r ''original_title'') records))"
    and nn: "list_all (\<lambda>r. \<not> isna (cell r ''original_title'')) records"
    and hr: "list_all (\<lambda>r. hashable (cell r ''original_title'')) records"
    and hl: "list_all hashable (column_values df title_column)"
  shows "\<exists>parts. merge_left df \<lparr>columns = record_keys, rows = records\<rparr> title_column
                     ''original_title'' ''_api_dup''
                 = Inr \<lparr>columns = columns df @ right_columns df title_column,
                        rows = map (\<lambda>lp. fst lp @ snd lp) (zip (rows df) parts)\<rparr>
               \<and> length parts = length (rows df)
               \<and> list_all (\<lambda>p. map fst p = right_columns df title_column) parts"
proof -
  let ?kept = "\<lambda>c. \<not> (title_column = ''original_title'' \<and> c = ''original_title'')"
  let ?renamed = "\<lambda>c. if c \<in> set (columns df) then c @ ''_api_dup'' else c"
  let ?rcols = "right_columns df title_column"
  let ?rpart = "\<lambda>r::row. map (\<lambda>kv. (?renamed (fst kv), snd kv)) (filter (\<lambda>kv. ?kept (fst kv)) r)"
  let ?pad = "map (\<lambda>c. (c, PNaN)) ?rcols"
  let ?ms = "\<lambda>l. filter (\<lambda>r. keys_match (cell l title_column) (cell r ''original_title'')) records"
  let ?E = "\<lambda>l. if ?ms l = [] then [l @ ?pad] else map (\<lambda>r. l @ ?rpart r) (?ms l)"
  let ?h = "\<lambda>l. case ?ms l of [] \<Rightarrow> ?pad | r # rs \<Rightarrow> ?rpart r"
  let ?parts = "map ?h (rows df)"
  have rk: "''original_title'' \<in> set record_keys" by (simp add: record_keys_def)
  have one: "length (?ms l) \<le> 1" for l
    using matches_at_most_one [OF d nn] .
  have E: "?E l = [l @ ?h l]" for l
  proof (cases "?ms l")
    case Nil
    then show ?thesis by simp
  next
    case (Cons r rs)
    with one [of l] have "rs = []" by simp
    with Cons show ?thesis by simp
  qed
  have rows: "concat (map ?E (rows df)) = map (\<lambda>lp. fst lp @ snd lp) (zip (rows df) ?parts)"
    by (rule concat_singletons) (rule E)
  have rp: "map fst (?rpart r) = ?rcols" if "map fst r = record_keys" for r
  proof -
    have "map fst (?rpart r) = map ?renamed (filter ?kept (map fst r))"
      by (simp add: filter_map comp_def)
    with that show ?thesis by (simp add: right_columns_def)
  qed
  have pk: "map fst ?pad = ?rcols" by (simp add: comp_def)
  have hk: "map fst (?h l) = ?rcols" for l
  proof (cases "?ms l")
    case Nil
    with pk show ?thesis by simp
  next
    case (Cons r rs)
    then have "r \<in> set (?ms l)" by simp
    then have "r \<in> set records" by simp
    with keys have "map fst r = record_keys" by (simp add: list_all_iff)
    from rp [OF this] Cons show ?thesis by simp
  qed
  have parts: "list_all (\<lambda>p. map fst p = ?rcols) ?parts"
    using hk by (simp add: list_all_iff)
  have hr': "list_all hashable (column_values \<lparr>columns = record_keys, rows = records\<rparr>
      ''original_title'')"
    using hr by (simp add: column_values_def list_all_iff)
  have "merge_left df \<lparr>columns = record_keys, rows = records\<rparr> title_column
          ''original_title'' ''_api_dup''
      = Inr \<lparr>columns = columns df @ ?rcols, rows = concat (map ?E (rows df))\<rparr>"
    unfolding merge_left_def Let_def right_columns_def
    using tc rk hl hr' by (simp cong: if_cong)
  with rows parts show ?thesis
    by (intro exI [of _ ?parts]) simp
qed

lemma fill_defaults_fold: "fill_defaults F = fold fill_step (get_default_data False) F"
  by (simp add: fill_defaults_def fill_step_def [abs_def])

lemma map_of_fill_row:
  "map_of (map (\<lambda>kv. if fst kv = a \<and> isna (snd kv) then (fst kv, d) else kv) r) c
   = map_option (\<lambda>v. if c = a \<and> isna v then d else v) (map_of r c)"
  by (induction r) auto

lemma fill_step_columns: "columns (fill_step cv F) = columns F"
  by (simp add: fill_step_def fillna_column_def)

lemma fill_step_length: "length (rows (fill_step cv F)) = length (rows F)"
  by (simp add: fill_step_def fillna_column_def)

lemma fill_step_keys:
  "i < length (rows F) \<Longrightarrow> map fst (rows (fill_step cv F) ! i) = map fst (rows F ! i)"
  by (simp add: fill_step_def fillna_column_def comp_def if_distrib cong: if_cong)

lemma fill_step_map_of:
  "i < length (rows F) \<Longrightarrow>
   map_of (rows (fill_step cv F) ! i) c
   = map_option (\<lambda>v. if c = fst cv \<and> isna v \<and> c \<in> set (columns F) then snd cv else v)
       (map_of (rows F ! i) c)"
  by (cases "map_of (rows F ! i) c")
     (auto simp: fill_step_def fillna_column_def map_of_fill_row)

lemma fold_fill_columns: "columns (fold fill_step ds F) = columns F"
  by (induction ds arbitrary: F) (simp_all add: fill_step_columns)

lemma fold_fill_length: "length (rows (fold fill_step ds F)) = length (rows F)"
  by (induction ds arbitrary: F) (simp_all add: fill_step_length)

lemma fold_fill_keys:
  "i < length (rows F) \<Longrightarrow> map fst (rows (fold fill_step ds F) ! i) = map fst (rows F ! i)"
  by (induction ds arbitrary: F) (simp_all add: fill_step_length fill_step_keys)

lemma fold_fill_map_of:
  assumes "i < length (rows F)" and "list_all (\<lambda>cv. \<not> isna (snd cv)) ds"
  shows "map_of (rows (fold fill_step ds F) ! i) c
       = map_option (\<lambda>v. if isna v \<and> c \<in> set (columns F)
                           then (case map_of ds c of Some d \<Rightarrow> d | None \<Rightarrow> v) else v)
           (map_of (rows F ! i) c)"
  using assms
proof (induction ds arbitrary: F)
  case Nil
  then show ?case by (cases "map_of (rows F ! i) c") auto
next
  case (Cons cv ds)
  from Cons.prems have i: "i < length (rows (fill_step cv F))" and ds: "list_all (\<lambda>cv. \<not> isna (snd cv)) ds"
    and nn: "\<not> isna (snd cv)"
    by (simp_all add: fill_step_length)
  show ?case
  proof (cases "map_of (rows F ! i) c")
    case None
    with Cons.IH [OF i ds] Cons.prems(1) show ?thesis
      by (simp add: fill_step_map_of)
  next
    case (Some v)
    with Cons.IH [OF i ds] Cons.prems(1) nn show ?thesis
      by (cases cv) (auto simp: fill_step_map_of fill_step_columns split: option.splits)
  qed
qed

lemma defaults_not_null: "list_all (\<lambda>cv. \<not> isna (snd cv)) (get_default_data False)"
  by (simp add: get_default_data_def)

lemma map_of_drop:
  "map_of (filter (\<lambda>kv. fst kv \<noteq> c) r) k = (if k = c then None else map_of r k)"
  by (induction r) auto

lemma hashable_with_nulls:
  "list_all hashable (dropna vs) \<Longrightarrow> list_all hashable vs"
proof (induction vs)
  case Nil
  then show ?case by simp
next
  case (Cons v vs)
  then show ?case by (cases v) (auto simp: dropna_def)
qed

lemma text_hashable: "text_or_missing v \<Longrightarrow> hashable v"
  by (cases v) auto

lemma text_sliceable: "text_or_missing v \<Longrightarrow> \<not> isna v \<Longrightarrow> sliceable v"
  by (cases v) auto

lemma merged_result_shape:
  assumes rng: "valid_rng rng"
    and tc: "title_column \<in> set (columns df)"
    and res: "merged_result net rng df title_column sample_size = Inr R"
  shows "\<exists>parts M. length parts = length (rows df)
           \<and> list_all (\<lambda>p. map fst p = right_columns df title_column) parts
           \<and> M = \<lparr>columns = columns df @ right_columns df title_column,
                   rows = map (\<lambda>lp. fst lp @ snd lp) (zip (rows df) parts)\<rparr>
           \<and> (R = M \<and> ''original_title'' \<notin> set (columns M)
               \<or> R = drop_column ''original_title'' M)"
proof -
  from res obtain titles where t: "titles_to_process rng df title_column sample_size = Inr titles"
    by (auto simp: merged_result_def split: sum.splits)
  from res t obtain records where r: "enrich_loop net 0 titles = Inr records"
    by (auto simp: merged_result_def split: sum.splits)
  from res t r obtain merged where
    m: "merge_left df (DataFrame records) title_column ''original_title'' ''_api_dup'' = Inr merged"
    and o: "R = merged \<and> ''original_title'' \<notin> set (columns merged)
            \<or> R = drop_column ''original_title'' merged"
    by (auto simp: merged_result_def split: sum.splits if_splits)
  have ne: "records \<noteq> []"
  proof
    assume "records = []"
    then have "columns (DataFrame records) = []"
      by (simp add: DataFrame_def union_keys_def)
    with m show False by (simp add: merge_left_def)
  qed
  from enrich_loop_records [OF r] have
    cells: "map (\<lambda>r. cell r ''original_title'') records = titles"
    and keys: "list_all (\<lambda>r. map fst r = record_keys) records" by simp_all
  have D: "DataFrame records = \<lparr>columns = record_keys, rows = records\<rparr>"
    by (rule DataFrame_uniform [OF ne keys distinct_record_keys])
  from titles_to_process_props [OF rng t] have
    d: "distinct (map py_key titles)"
    and sub: "set titles \<subseteq> set (dropna (column_values df title_column))"
    and h: "list_all hashable (dropna (column_values df title_column))" by simp_all
  from sub have tn: "\<forall>t \<in> set titles. \<not> isna t" by (auto simp: dropna_def)
  from sub h have th: "\<forall>t \<in> set titles. hashable t" by (auto simp: list_all_iff)
  have nn: "list_all (\<lambda>r. \<not> isna (cell r ''original_title'')) records"
    using tn cells by (auto simp: list_all_iff)
  have hr: "list_all (\<lambda>r. hashable (cell r ''original_title'')) records"
    using th cells by (auto simp: list_all_iff)
  have d': "distinct (map py_key (map (\<lambda>r. cell r ''original_title'') records))"
    using d cells by simp
  from merge_enriched [OF tc keys d' nn hr hashable_with_nulls [OF h]] m D o
  show ?thesis by auto
qed

lemma merged_result_returns:
  assumes rng: "valid_rng rng"
    and tc: "title_column \<in> set (columns df)"
    and tt: "list_all (\<lambda>r. text_or_missing (cell r title_column)) (rows df)"
    and nonempty: "dropna (column_values df title_column) \<noteq> []"
    and sz: "(case sample_size of None \<Rightarrow> True | Some k \<Rightarrow> 0 \<le> k)"
  shows "\<exists>R. merged_result net rng df title_column sample_size = Inr R"
proof -
  from tt have tv: "\<forall>v \<in> set (column_values df title_column). text_or_missing v"
    by (auto simp: column_values_def list_all_iff)
  then have hl: "list_all hashable (column_values df title_column)"
    by (auto simp: list_all_iff intro: text_hashable)
  then have h: "list_all hashable (dropna (column_values df title_column))"
    by (simp add: dropna_def list_all_iff)
  from titles_to_process_returns [OF h sz] obtain titles where
    t: "titles_to_process rng df title_column sample_size = Inr titles" by blast
  from titles_to_process_props [OF rng t] nonempty have
    d: "distinct (map py_key titles)"
    and sub: "set titles \<subseteq> set (dropna (column_values df title_column))"
    and tne: "titles \<noteq> []" by simp_all
  from sub tv have "list_all sliceable titles"
    by (auto simp: list_all_iff dropna_def intro: text_sliceable)
  from enrich_loop_returns [OF this] obtain records where
    r: "enrich_loop net 0 titles = Inr records" by blast
  from enrich_loop_records [OF r] have
    cells: "map (\<lambda>r. cell r ''original_title'') records = titles"
    and keys: "list_all (\<lambda>r. map fst r = record_keys) records" by simp_all
  from cells tne have ne: "records \<noteq> []" by auto
  have D: "DataFrame records = \<lparr>columns = record_keys, rows = records\<rparr>"
    by (rule DataFrame_uniform [OF ne keys distinct_record_keys])
  from sub have tn: "\<forall>t \<in> set titles. \<not> isna t" by (auto simp: dropna_def)
  from sub h have th: "\<forall>t \<in> set titles. hashable t" by (auto simp: list_all_iff)
  have nn: "list_all (\<lambda>r. \<not> isna (cell r ''original_title'')) records"
    using tn cells by (auto simp: list_all_iff)
  have hr: "list_all (\<lambda>r. hashable (cell r ''original_title'')) records"
    using th cells by (auto simp: list_all_iff)
  have d': "distinct (map py_key (map (\<lambda>r. cell r ''original_title'') records))"
    using d cells by simp
  from merge_enriched [OF tc keys d' nn hr hl] obtain merged where
    "merge_left df \<lparr>columns = record_keys, rows = records\<rparr> title_column
       ''original_title'' ''_api_dup'' = Inr merged" by blast
  with t r D show ?thesis by (simp add: merged_result_def)
qed

lemma map_of_append_left:
  "c \<in> set (map fst l) \<Longrightarrow> map_of (l @ p) c = map_of l c"
  by (induction l) auto

lemma map_of_append_right:
  "c \<notin> set (map fst l) \<Longrightarrow> map_of (l @ p) c = map_of p c"
  by (induction l) auto

lemma map_of_key: "c \<in> set (map fst r) \<Longrightarrow> \<exists>v. map_of r c = Some v"
  by (induction r) auto

lemma merged_result_rows:
  assumes rng: "valid_rng rng"
    and tc: "title_column \<in> set (columns df)"
    and res: "merged_result net rng df title_column sample_size = Inr R"
    and ok: "frame_ok df"
  shows "length (rows R) = length (rows df)"
    and "\<And>i c. i < length (rows df) \<Longrightarrow> c \<in> set (columns df) \<Longrightarrow> c \<noteq> ''original_title''
           \<Longrightarrow> map_of (rows R ! i) c = map_of (rows df ! i) c"
    and "\<And>a. a \<in> set attr_names \<Longrightarrow> a \<in> set (columns R)"
    and "\<And>i a. i < length (rows df) \<Longrightarrow> a \<in> set attr_names
           \<Longrightarrow> \<exists>v. map_of (rows R ! i) a = Some v"
proof -
  from merged_result_shape [OF rng tc res] obtain parts M where
    len: "length parts = length (rows df)"
    and pk: "list_all (\<lambda>p. map fst p = right_columns df title_column) parts"
    and M: "M = \<lparr>columns = columns df @ right_columns df title_column,
                 rows = map (\<lambda>lp. fst lp @ snd lp) (zip (rows df) parts)\<rparr>"
    and R: "R = M \<and> ''original_title'' \<notin> set (columns M) \<or> R = drop_column ''original_title'' M"
    by blast
  have rowM: "rows M ! i = rows df ! i @ parts ! i" if "i < length (rows df)" for i
    using that len by (simp add: M)
  have lenM: "length (rows M) = length (rows df)" using len by (simp add: M)
  have keyl: "map fst (rows df ! i) = columns df" if "i < length (rows df)" for i
    using ok that by (simp add: frame_ok_def list_all_length)
  have keyp: "map fst (parts ! i) = right_columns df title_column" if "i < length (rows df)" for i
    using pk that len by (simp add: list_all_length)
  have rowR: "map_of (rows R ! i) c = map_of (rows M ! i) c"
    if "i < length (rows df)" and "c \<noteq> ''original_title''" for i c
    using R that lenM by (auto simp: drop_column_def map_of_drop)
  show "length (rows R) = length (rows df)"
    using R lenM by (auto simp: drop_column_def)
  show "map_of (rows R ! i) c = map_of (rows df ! i) c"
    if "i < length (rows df)" and "c \<in> set (columns df)" and "c \<noteq> ''original_title''" for i c
  proof -
    have "map_of (rows R ! i) c = map_of (rows df ! i @ parts ! i) c"
      using rowR [OF that(1,3)] rowM [OF that(1)] by (simp only:)
    also have "\<dots> = map_of (rows df ! i) c"
      using that by (intro map_of_append_left) (simp only: keyl)
    finally show ?thesis .
  qed
  have attr_col: "a \<in> set (columns M)" if "a \<in> set attr_names" for a
  proof (cases "a \<in> set (columns df)")
    case True
    then show ?thesis by (simp add: M)
  next
    case False
    from that have "a \<noteq> ''original_title''" using original_title_not_attr by auto
    with that False have "a \<in> set (right_columns df title_column)"
      by (auto simp: right_columns_def record_keys_def image_iff)
    then show ?thesis by (simp add: M)
  qed
  show "a \<in> set (columns R)" if "a \<in> set attr_names" for a
  proof -
    from that have "a \<noteq> ''original_title''" using original_title_not_attr by auto
    with attr_col [OF that] R show ?thesis by (auto simp: drop_column_def)
  qed
  show "\<exists>v. map_of (rows R ! i) a = Some v" if "i < length (rows df)" and "a \<in> set attr_names" for i a
  proof -
    from that have ne: "a \<noteq> ''original_title''" using original_title_not_attr by auto
    from attr_col [OF that(2)] have "a \<in> set (map fst (rows df ! i @ parts ! i))"
      using keyl [OF that(1)] keyp [OF that(1)] by (simp add: M)
    from map_of_key [OF this] rowR [OF that(1) ne] rowM [OF that(1)] show ?thesis
      by (simp only:)
  qed
qed

lemma default_lookup:
  "a \<in> set attr_names \<Longrightarrow>
   \<exists>d. map_of (get_default_data False) a = Some d \<and> \<not> isna d
        \<and> dict_get (get_default_data False) a PNaN = d"
  by (auto simp: attr_names_eq get_default_data_def dict_get_def)

lemma default_lookup_none:
  "c \<notin> set attr_names \<Longrightarrow> map_of (get_default_data False) c = None"
  by (simp add: attr_names_def map_of_eq_None_iff)

lemma valid_rng_upt: "valid_rng (\<lambda>m. [0..<m])"
  by (auto simp: valid_rng_def)

lemma enrich_returns:
  assumes "valid_rng rng" and "title_column \<in> set (columns df)"
    and "list_all (\<lambda>r. text_or_missing (cell r title_column)) (rows df)"
    and "dropna (column_values df title_column) \<noteq> []"
    and "(case sample_size of None \<Rightarrow> True | Some k \<Rightarrow> 0 \<le> k)"
  shows "\<exists>out. enrich_dataset_with_api net rng df title_column sample_size = Inr (Some out)"
  using merged_result_returns [OF assms, of net] assms(2)
  by (auto simp: enrich_dataset_with_api_def)

text \<open>
  C2. Whenever \<^verbatim>\<open>enrich_dataset_with_api\<close> returns a frame, it has as many rows as the
  input, and its \<open>i\<close>-th row carries the cells of the \<open>i\<close>-th input row in every input
  column (the columns named like an enrichment attribute, which the completeness pass may
  fill, and \<^verbatim>\<open>original_title\<close>, which is dropped, apart): the left join neither drops
  nor repeats nor reorders a row.  The titles that are looked up, which are the keys of
  the enrichment table, are pairwise different.  The function does return a frame when
  the title column is absent, and when its cells are strings or missing, not all missing,
  and the sample size is not negative.
\<close>

theorem enrichment_preserves_rows:
  assumes "valid_rng rng" and "frame_ok df"
  shows "(\<forall>out. enrich_dataset_with_api net rng df title_column sample_size = Inr (Some out) \<longrightarrow>
            length (rows out) = length (rows df)
          \<and> (\<forall>i < length (rows df). \<forall>c \<in> set (columns df).
                c \<notin> set attr_names \<longrightarrow> c \<noteq> ''original_title'' \<longrightarrow>
                map_of (rows out ! i) c = map_of (rows df ! i) c))
       \<and> (\<forall>titles. titles_to_process rng df title_column sample_size = Inr titles
             \<longrightarrow> distinct (map py_key titles))
       \<and> ((title_column \<in> set (columns df) \<longrightarrow>
              list_all (\<lambda>r. text_or_missing (cell r title_column)) (rows df)
            \<and> dropna (column_values df title_column) \<noteq> []
            \<and> (case sample_size of None \<Rightarrow> True | Some k \<Rightarrow> 0 \<le> k))
           \<longrightarrow> (\<exists>out. enrich_dataset_with_api net rng df title_column sample_size
                        = Inr (Some out)))"
proof -
  have keys: "\<forall>titles. titles_to_process rng df title_column sample_size = Inr titles
      \<longrightarrow> distinct (map py_key titles)"
    using titles_to_process_props [OF assms(1)] by blast
  have returns: "(title_column \<in> set (columns df) \<longrightarrow>
        list_all (\<lambda>r. text_or_missing (cell r title_column)) (rows df)
      \<and> dropna (column_values df title_column) \<noteq> []
      \<and> (case sample_size of None \<Rightarrow> True | Some k \<Rightarrow> 0 \<le> k))
     \<longrightarrow> (\<exists>out. enrich_dataset_with_api net rng df title_column sample_size = Inr (Some out))"
  proof (cases "title_column \<in> set (columns df)")
    case False
    then show ?thesis by (simp add: enrich_dataset_with_api_def)
  next
    case True
    then show ?thesis using enrich_returns [OF assms(1) True] by blast
  qed
  have rows: "length (rows out) = length (rows df)
      \<and> (\<forall>i < length (rows df). \<forall>c \<in> set (columns df).
            c \<notin> set attr_names \<longrightarrow> c \<noteq> ''original_title'' \<longrightarrow>
            map_of (rows out ! i) c = map_of (rows df ! i) c)"
    if e: "enrich_dataset_with_api net rng df title_column sample_size = Inr (Some out)" for out
  proof (cases "title_column \<in> set (columns df)")
    case False
    with e have "out = df" by (simp add: enrich_dataset_with_api_def)
    then show ?thesis by simp
  next
    case True
    with e obtain R where
      R: "merged_result net rng df title_column sample_size = Inr R"
      and out: "out = fold fill_step (get_default_data False) R"
      by (auto simp: enrich_dataset_with_api_def fill_defaults_fold split: sum.splits)
    note facts = merged_result_rows [OF assms(1) True R assms(2)]
    have len: "length (rows out) = length (rows df)"
      by (simp add: out fold_fill_length facts(1))
    have "map_of (rows out ! i) c = map_of (rows df ! i) c"
      if "i < length (rows df)" and "c \<in> set (columns df)" and "c \<notin> set attr_names"
        and "c \<noteq> ''original_title''" for i c
    proof -
      from that(1) have i: "i < length (rows R)" by (simp add: facts(1))
      have "map_of (rows out ! i) c = map_of (rows R ! i) c"
        unfolding out
        by (cases "map_of (rows R ! i) c")
           (simp_all add: fold_fill_map_of [OF i defaults_not_null]
              default_lookup_none [OF that(3)])
      with facts(2) [OF that(1,2,4)] show ?thesis by simp
    qed
    with len show ?thesis by blast
  qed
  from rows keys returns show ?thesis by blast
qed

theorem enrichment_preserves_rows_witness:
  "valid_rng (\<lambda>m. [0..<m])
   \<and> frame_ok \<lparr>columns = [''Title'', ''Qty''],
                rows = [[(''Title'', PStr ''Dune''), (''Qty'', PInt 2)],
                        [(''Title'', PNaN), (''Qty'', PInt 1)]]\<rparr>
   \<and> (\<exists>out. enrich_dataset_with_api (\<lambda>k q. Timeout) (\<lambda>m. [0..<m])
               \<lparr>columns = [''Title'', ''Qty''],
                rows = [[(''Title'', PStr ''Dune''), (''Qty'', PInt 2)],
                        [(''Title'', PNaN), (''Qty'', PInt 1)]]\<rparr> ''Title'' None = Inr (Some out)
          \<and> length (rows out) = 2
          \<and> map_of (rows out ! 0) ''Qty'' = Some (PInt 2)
          \<and> map_of (rows out ! 1) ''Qty'' = Some (PInt 1))"
proof -
  let ?df = "\<lparr>columns = [''Title'', ''Qty''],
              rows = [[(''Title'', PStr ''Dune''), (''Qty'', PInt 2)],
                      [(''Title'', PNaN), (''Qty'', PInt 1)]]\<rparr>"
  have ok: "frame_ok ?df" by (simp add: frame_ok_def)
  have "\<exists>out. enrich_dataset_with_api (\<lambda>k q. Timeout) (\<lambda>m. [0..<m]) ?df ''Title'' None
      = Inr (Some out)"
    by (rule enrich_returns [OF valid_rng_upt])
       (simp_all add: column_values_def cell_def dict_get_def dropna_def)
  then obtain out where out: "enrich_dataset_with_api (\<lambda>k q. Timeout) (\<lambda>m. [0..<m]) ?df
      ''Title'' None = Inr (Some out)" by blast
  from enrichment_preserves_rows [OF valid_rng_upt ok, of "\<lambda>k q. Timeout" "''Title''" None] out
  have "length (rows out) = 2" and "map_of (rows out ! 0) ''Qty'' = Some (PInt 2)"
    and "map_of (rows out ! 1) ''Qty'' = Some (PInt 1)"
    by (simp_all add: attr_names_eq)
  with out valid_rng_upt ok show ?thesis by blast
qed

text \<open>
  The completeness pass.  For an input frame that has the title column: whenever the
  function returns a frame, that frame is the completeness pass applied to the result
  of the join;
  it has every enrichment attribute as a column, and in every row the value of every
  attribute is the value the join left there when that is not missing and the constant
  of the default record otherwise, and is never missing.  The function does return a
  frame when the title cells are strings or missing, not all missing, and the sample size
  is not negative.
\<close>

theorem enrichment_complete:
  assumes "valid_rng rng" and "frame_ok df" and "title_column \<in> set (columns df)"
  shows "(\<forall>out. enrich_dataset_with_api net rng df title_column sample_size = Inr (Some out) \<longrightarrow>
            (\<exists>result_df.
                merged_result net rng df title_column sample_size = Inr result_df
              \<and> out = fill_defaults result_df
              \<and> length (rows out) = length (rows result_df)
              \<and> length (rows out) = length (rows df)
              \<and> (\<forall>a \<in> set attr_names. a \<in> set (columns out))
              \<and> (\<forall>i < length (rows out). \<forall>a \<in> set attr_names.
                    \<exists>v. map_of (rows result_df ! i) a = Some v
                      \<and> map_of (rows out ! i) a
                          = Some (if isna v then dict_get (get_default_data False) a PNaN else v)
                      \<and> \<not> isna (if isna v then dict_get (get_default_data False) a PNaN
                                  else v))))
       \<and> (list_all (\<lambda>r. text_or_missing (cell r title_column)) (rows df) \<longrightarrow>
          dropna (column_values df title_column) \<noteq> [] \<longrightarrow>
          (case sample_size of None \<Rightarrow> True | Some k \<Rightarrow> 0 \<le> k) \<longrightarrow>
          (\<exists>out. enrich_dataset_with_api net rng df title_column sample_size = Inr (Some out)))"
proof -
  have returns: "list_all (\<lambda>r. text_or_missing (cell r title_column)) (rows df) \<longrightarrow>
      dropna (column_values df title_column) \<noteq> [] \<longrightarrow>
      (case sample_size of None \<Rightarrow> True | Some k \<Rightarrow> 0 \<le> k) \<longrightarrow>
      (\<exists>out. enrich_dataset_with_api net rng df title_column sample_size = Inr (Some out))"
    using enrich_returns [OF assms(1,3)] by blast
  have complete: "\<exists>result_df.
        merged_result net rng df title_column sample_size = Inr result_df
      \<and> out = fill_defaults result_df
      \<and> length (rows out) = length (rows result_df)
      \<and> length (rows out) = length (rows df)
      \<and> (\<forall>a \<in> set attr_names. a \<in> set (columns out))
      \<and> (\<forall>i < length (rows out). \<forall>a \<in> set attr_names.
            \<exists>v. map_of (rows result_df ! i) a = Some v
              \<and> map_of (rows out ! i) a
                  = Some (if isna v then dict_get (get_default_data False) a PNaN else v)
              \<and> \<not> isna (if isna v then dict_get (get_default_data False) a PNaN else v))"
    if e: "enrich_dataset_with_api net rng df title_column sample_size = Inr (Some out)" for out
  proof -
    from e assms(3) obtain R where
      R: "merged_result net rng df title_column sample_size = Inr R"
      and out: "out = fold fill_step (get_default_data False) R"
      by (auto simp: enrich_dataset_with_api_def fill_defaults_fold split: sum.splits)
    note facts = merged_result_rows [OF assms(1,3) R assms(2)]
    have len: "length (rows out) = length (rows R)"
      by (simp add: out fold_fill_length)
    have cols: "\<forall>a \<in> set attr_names. a \<in> set (columns out)"
      using facts(3) by (simp add: out fold_fill_columns)
    have cells: "\<exists>v. map_of (rows R ! i) a = Some v
        \<and> map_of (rows out ! i) a
            = Some (if isna v then dict_get (get_default_data False) a PNaN else v)
        \<and> \<not> isna (if isna v then dict_get (get_default_data False) a PNaN else v)"
      if "i < length (rows out)" and "a \<in> set attr_names" for i a
    proof -
      from that(1) have i: "i < length (rows R)" and i': "i < length (rows df)"
        by (simp_all add: len facts(1))
      from facts(4) [OF i' that(2)] obtain v where v: "map_of (rows R ! i) a = Some v" by blast
      from default_lookup [OF that(2)] obtain d where
        d: "map_of (get_default_data False) a = Some d" "\<not> isna d"
           "dict_get (get_default_data False) a PNaN = d" by blast
      have "map_of (rows out ! i) a = Some (if isna v then d else v)"
        unfolding out
        by (simp add: fold_fill_map_of [OF i defaults_not_null] v d(1) facts(3) [OF that(2)])
      with v d show ?thesis by auto
    qed
    have "out = fill_defaults R" by (simp add: out fill_defaults_fold)
    with R len cols cells facts(1) show ?thesis by auto
  qed
  from complete returns show ?thesis by blast
qed

theorem enrichment_complete_witness:
  "valid_rng (\<lambda>m. [0..<m])
   \<and> frame_ok \<lparr>columns = [''Title'', ''Qty''],
                rows = [[(''Title'', PStr ''Dune''), (''Qty'', PInt 2)],
                        [(''Title'', PNaN), (''Qty'', PInt 1)]]\<rparr>
   \<and> ''Title'' \<in> set [''Title'', ''Qty'']
   \<and> list_all (\<lambda>r. text_or_missing (cell r ''Title''))
        [[(''Title'', PStr ''Dune''), (''Qty'', PInt 2)], [(''Title'', PNaN), (''Qty'', PInt 1)]]
   \<and> dropna [PStr ''Dune'', PNaN] \<noteq> []
   \<and> (\<exists>out. enrich_dataset_with_api (\<lambda>k q. Timeout) (\<lambda>m. [0..<m])
               \<lparr>columns = [''Title'', ''Qty''],
                rows = [[(''Title'', PStr ''Dune''), (''Qty'', PInt 2)],
                        [(''Title'', PNaN), (''Qty'', PInt 1)]]\<rparr> ''Title'' None = Inr (Some out)
          \<and> length (rows out) = 2
          \<and> list_all (\<lambda>a. a \<in> set (columns out)) attr_names
          \<and> list_all (\<lambda>r. list_all (\<lambda>a. \<not> isna (cell r a)) attr_names) (rows out))"
proof -
  let ?df = "\<lparr>columns = [''Title'', ''Qty''],
              rows = [[(''Title'', PStr ''Dune''), (''Qty'', PInt 2)],
                      [(''Title'', PNaN), (''Qty'', PInt 1)]]\<rparr>"
  have ok: "frame_ok ?df" by (simp add: frame_ok_def)
  have h3: "''Title'' \<in> set (columns ?df)" by simp
  have h4: "list_all (\<lambda>r. text_or_missing (cell r ''Title'')) (rows ?df)"
    by (simp add: cell_def dict_get_def)
  have h5: "dropna (column_values ?df ''Title'') \<noteq> []"
    by (simp add: column_values_def cell_def dict_get_def dropna_def)
  have h6: "(case (None :: int option) of None \<Rightarrow> True | Some k \<Rightarrow> 0 \<le> k)" by simp
  note c = enrichment_complete [OF valid_rng_upt ok h3, of "\<lambda>k q. Timeout" None]
  from c h4 h5 h6 obtain out where
    e: "enrich_dataset_with_api (\<lambda>k q. Timeout) (\<lambda>m. [0..<m]) ?df ''Title'' None = Inr (Some out)"
    by blast
  with c obtain result_df :: dataframe where
    l: "length (rows out) = length (rows ?df)"
    and c: "\<forall>a \<in> set attr_names. a \<in> set (columns out)"
    and v: "\<forall>i < length (rows out). \<forall>a \<in> set attr_names.
               \<exists>v. map_of (rows result_df ! i) a = Some v
                 \<and> map_of (rows out ! i) a
                     = Some (if isna v then dict_get (get_default_data False) a PNaN else v)
                 \<and> \<not> isna (if isna v then dict_get (get_default_data False) a PNaN else v)"
    by blast
  from l have len: "length (rows out) = 2" by simp
  have "\<not> isna (cell r a)" if "r \<in> set (rows out)" and "a \<in> set attr_names" for r a
  proof -
    from that(1) obtain i where "i < length (rows out)" and "r = rows out ! i"
      by (auto simp: in_set_conv_nth)
    with v that(2) show ?thesis by (fastforce simp: cell_def dict_get_def)
  qed
  with e c len h4 h5 valid_rng_upt ok show ?thesis
    by (simp add: list_all_iff column_values_def cell_def dict_get_def)
qed

text \<open>
  C1. On a frame without the title column the function returns the frame as it is, so
  the rows of its output have no enrichment attribute at all, against the invariant and
  against the message of line 230.  It is the defect of C5 seen from the output: the
  guard of line 127 returns the frame where \<^verbatim>\<open>main\<close> expects \<^verbatim>\<open>None\<close>.
\<close>

theorem missing_title_column_output_incomplete:
  "enrich_dataset_with_api (\<lambda>k q. Timeout) (\<lambda>m. [0..<m])
     \<lparr>columns = [''Judul'', ''Qty''],
      rows = [[(''Judul'', PStr ''Dune''), (''Qty'', PInt 2)]]\<rparr> ''Title'' None
   = Inr (Some \<lparr>columns = [''Judul'', ''Qty''],
                 rows = [[(''Judul'', PStr ''Dune''), (''Qty'', PInt 2)]]\<rparr>)
   \<and> ''api_found'' \<notin> set [''Judul'', ''Qty'']
   \<and> map_of [(''Judul'', PStr ''Dune''), (''Qty'', PInt 2)] ''api_found'' = None"
  by (simp add: enrich_dataset_with_api_def)

text \<open>
  C5. On an input file without a \<^verbatim>\<open>Title\<close> column the run does not halt:
  \<^verbatim>\<open>enrich_dataset_with_api\<close> returns the frame it was given, the test of \<^verbatim>\<open>main\<close> for
  \<^verbatim>\<open>None\<close> does not fire, and the unchanged frame is written as the enriched dataset.
  A missing input file, in contrast, halts the run with nothing written.
\<close>

theorem missing_title_column_not_fatal:
  "api_enrichment_main (\<lambda>k q. Timeout) (\<lambda>m. [0..<m])
     (Some \<lparr>columns = [''Judul'', ''Qty''],
            rows = [[(''Judul'', PStr ''Dune''), (''Qty'', PInt 2)]]\<rparr>)
   = Inr (Some \<lparr>columns = [''Judul'', ''Qty''],
                 rows = [[(''Judul'', PStr ''Dune''), (''Qty'', PInt 2)]]\<rparr>)
   \<and> api_enrichment_main (\<lambda>k q. Timeout) (\<lambda>m. [0..<m]) None = Inr None"
  by (simp add: api_enrichment_main_def enrich_dataset_with_api_def)

section \<open>Properties of the Google Books enrichment\<close>

lemma isbn_match_short_circuits:
  assumes "truthy isbn" and "lower (py_str isbn) \<noteq> ''nan''" and "lower (py_str isbn) \<noteq> ''unknown''"
    and "first_volume (net n (base_url @ ''?q=isbn:'' @ strip (remove_char CHR ''-'' (py_str isbn))))
           = Some v"
  shows "get_book_info_from_google net n isbn title author
       = (v, [base_url @ ''?q=isbn:'' @ strip (remove_char CHR ''-'' (py_str isbn))])"
  using assms by (simp add: get_book_info_from_google_def Let_def)

text \<open>
  C4. The row has the default identifier \<open>0\<close> and the default author
  \<^verbatim>\<open>Unknown Author\<close> of the first enrichment, so the identifier strategy is skipped and
  the query is by title and author.  The source has no match for it, and a match for the
  query by title only.  The function makes the one request and returns \<^verbatim>\<open>None\<close>: the
  title is not tried by title only, which is used only when there is no author.
\<close>

theorem title_only_fallback_missing:
  "get_book_info_from_google
     (\<lambda>k u. if u = ''https://www.googleapis.com/books/v1/volumes?q=intitle:Dune&maxResults=1''
             then Reply 200 (Some (PDict [(''items'',
                    PList [PDict [(''volumeInfo'',
                      PDict [(''title'', PStr ''Dune''), (''pageCount'', PInt 412)])]])]))
             else Reply 200 (Some (PDict [(''totalItems'', PInt 0)])))
     0 (PInt 0) (PStr ''Dune'') (PStr ''Unknown Author'')
   = (PNone,
      [''https://www.googleapis.com/books/v1/volumes?q=intitle:Dune+inauthor:Unknown Author&maxResults=1''])
   \<and> get_book_info_from_google
     (\<lambda>k u. if u = ''https://www.googleapis.com/books/v1/volumes?q=intitle:Dune&maxResults=1''
             then Reply 200 (Some (PDict [(''items'',
                    PList [PDict [(''volumeInfo'',
                      PDict [(''title'', PStr ''Dune''), (''pageCount'', PInt 412)])]])]))
             else Reply 200 (Some (PDict [(''totalItems'', PInt 0)])))
     1 (PInt 0) (PStr ''Dune'') (PStr [])
   = (PDict [(''title'', PStr ''Dune''), (''pageCount'', PInt 412)],
      [''https://www.googleapis.com/books/v1/volumes?q=intitle:Dune&maxResults=1''])"
  by code_simp

lemma append_info_keeps:
  "requests (fst (append_info info s)) = requests s"
  "lookups (fst (append_info info s)) = lookups s"
  "cache (fst (append_info info s)) = cache s"
  "cache_file (fst (append_info info s)) = cache_file s"
  by (simp_all add: append_info_def split: prod.splits option.splits)

lemma append_fields_ok:
  assumes "list_all (\<lambda>ck. map_of d (snd ck) \<noteq> None) cks"
  shows "append_fields (PDict d) cks nd
       = (fold (\<lambda>ck. append_to (fst ck) (dict_get d (snd ck) PNone)) cks nd, None)"
  using assms
  by (induction cks arbitrary: nd) (auto simp: subscript_key_def dict_get_def)

lemma process_row_hit:
  "map_of (cache s) (title_key r) = Some info \<Longrightarrow> process_row net s r = append_info info s"
  by (simp add: process_row_def)

lemma process_row_lookups:
  assumes "process_row net s r = (s', e)"
  shows "\<exists>new. lookups s' = lookups s @ new \<and> distinct new
           \<and> set new \<inter> fst ` set (cache s) = {}
           \<and> set new \<subseteq> {title_key r}
           \<and> fst ` set (cache s) \<subseteq> fst ` set (cache s')
           \<and> (e = None \<longrightarrow> set new \<subseteq> fst ` set (cache s'))"
proof (cases "map_of (cache s) (title_key r)")
  case (Some info)
  with assms have "s' = fst (append_info info s)"
    by (metis process_row_hit fst_conv)
  then show ?thesis by (simp add: append_info_keeps)
next
  case None
  then have fresh: "title_key r \<notin> fst ` set (cache s)" by (simp add: map_of_eq_None_iff)
  let ?found = "get_book_info_from_google net (requests s) (dict_get r ''api_isbn'' (PStr []))
      (PStr (title_key r)) (dict_get r ''api_author'' (PStr []))"
  let ?s1 = "s\<lparr>requests := requests s + length (snd ?found),
                lookups := lookups s @ [title_key r]\<rparr>"
  show ?thesis
  proof (cases "make_info (fst ?found)")
    case (Inl x)
    with assms None have "s' = ?s1" and "e = Some x"
      by (simp_all add: process_row_def Let_def)
    with fresh show ?thesis by simp
  next
    case (Inr info)
    let ?s2 = "?s1\<lparr>cache := AList.update (title_key r) info (cache ?s1)\<rparr>"
    let ?s3 = "if rows_processed ?s2 mod 50 = 0 then ?s2\<lparr>cache_file := Some (cache ?s2)\<rparr> else ?s2"
    from None Inr have "process_row net s r = append_info info ?s3"
      by (simp only: process_row_def Let_def option.case sum.case)
    with assms have "s' = fst (append_info info ?s3)"
      by (metis fst_conv)
    then have l: "lookups s' = lookups s @ [title_key r]"
      and c: "cache s' = AList.update (title_key r) info (cache s)"
      by (simp_all add: append_info_keeps)
    have "fst ` set (cache s') = insert (title_key r) (fst ` set (cache s))"
      unfolding c using dom_update [of "title_key r" info "cache s"]
      by (simp add: dom_map_of_conv_image_fst)
    with l fresh show ?thesis by auto
  qed
qed

lemma process_rows_lookups:
  assumes "process_rows net s rs = (s', e)"
  shows "\<exists>new. lookups s' = lookups s @ new \<and> distinct new
           \<and> set new \<inter> fst ` set (cache s) = {}
           \<and> set new \<subseteq> title_key ` set rs
           \<and> fst ` set (cache s) \<subseteq> fst ` set (cache s')
           \<and> (e = None \<longrightarrow> set new \<subseteq> fst ` set (cache s'))"
  using assms
proof (induction rs arbitrary: s)
  case Nil
  then show ?case by simp
next
  case (Cons r rs)
  obtain s1 e1 where step: "process_row net s r = (s1, e1)"
    by (cases "process_row net s r")
  from process_row_lookups [OF step] obtain new1 where
    n1: "lookups s1 = lookups s @ new1" "distinct new1" "set new1 \<inter> fst ` set (cache s) = {}"
        "set new1 \<subseteq> {title_key r}" "fst ` set (cache s) \<subseteq> fst ` set (cache s1)"
        "e1 = None \<longrightarrow> set new1 \<subseteq> fst ` set (cache s1)"
    by blast
  show ?case
  proof (cases e1)
    case (Some x)
    with step Cons.prems have "s' = s1" and "e = Some x" by simp_all
    with n1 show ?thesis by auto
  next
    case None
    with step Cons.prems have "process_rows net s1 rs = (s', e)" by simp
    from Cons.IH [OF this] obtain new2 where
      n2: "lookups s' = lookups s1 @ new2" "distinct new2"
          "set new2 \<inter> fst ` set (cache s1) = {}" "set new2 \<subseteq> title_key ` set rs"
          "fst ` set (cache s1) \<subseteq> fst ` set (cache s')"
          "e = None \<longrightarrow> set new2 \<subseteq> fst ` set (cache s')"
      by blast
    from n1(6) None have in1: "set new1 \<subseteq> fst ` set (cache s1)" by simp
    have "lookups s' = lookups s @ (new1 @ new2)" using n1(1) n2(1) by simp
    moreover have "distinct (new1 @ new2)" using n1(2) n2(2,3) in1 by auto
    moreover have "set (new1 @ new2) \<inter> fst ` set (cache s) = {}"
      using n1(3,5) n2(3) by auto
    moreover have "set (new1 @ new2) \<subseteq> title_key ` set (r # rs)"
      using n1(4) n2(4) by auto
    moreover have "fst ` set (cache s) \<subseteq> fst ` set (cache s')" using n1(5) n2(5) by auto
    moreover have "e = None \<longrightarrow> set (new1 @ new2) \<subseteq> fst ` set (cache s')"
      using in1 n2(5,6) by auto
    ultimately show ?thesis by blast
  qed
qed

lemma append_fields_success:
  assumes "append_fields info cks nd = (nd', None)" and "cks \<noteq> []"
  shows "\<exists>d. info = PDict d \<and> list_all (\<lambda>ck. map_of d (snd ck) \<noteq> None) cks"
  using assms
proof (induction cks arbitrary: nd)
  case Nil
  then show ?case by simp
next
  case (Cons ck rest)
  from Cons.prems(1) obtain v where v: "subscript_key info (snd ck) = Inr v"
    and rest: "append_fields info rest (append_to (fst ck) v nd) = (nd', None)"
    by (auto split: sum.splits)
  from v obtain d where d: "info = PDict d" and k: "map_of d (snd ck) = Some v"
    by (auto simp: subscript_key_def split: pyval.splits option.splits)
  show ?case
  proof (cases "rest = []")
    case True
    with d k show ?thesis by simp
  next
    case False
    from Cons.IH [OF rest False] d k show ?thesis by auto
  qed
qed

lemma info_columns_nonempty: "info_columns \<noteq> []"
  by (simp add: info_columns_def)

lemma fold_append_columns:
  "fold (\<lambda>ck. append_to (fst ck) (G ck)) info_columns (map (\<lambda>ck. (fst ck, F ck)) info_columns)
   = map (\<lambda>ck. (fst ck, F ck @ [G ck])) info_columns"
  by (simp add: info_columns_def append_to_def)

lemma serve_row:
  assumes hit: "map_of (cache s) (title_key r) = Some info"
    and nd: "new_data s = served_columns (cache s) past"
    and rp: "rows_processed s = length past"
    and ok: "append_info info s = (s1, None)"
  shows "new_data s1 = served_columns (cache s1) (past @ [r])"
    and "rows_processed s1 = length (past @ [r])"
    and "cache s1 = cache s" and "requests s1 = requests s" and "lookups s1 = lookups s"
    and "cache_file s1 = cache_file s" and "has_fields info"
proof -
  obtain nd' where a: "append_fields info info_columns (new_data s) = (nd', None)"
    and s1: "s1 = s\<lparr>new_data := nd', rows_processed := rows_processed s + 1\<rparr>"
    using ok by (auto simp: append_info_def split: prod.splits option.splits)
  from append_fields_success [OF a info_columns_nonempty] obtain d where
    d: "info = PDict d" and f: "list_all (\<lambda>ck. map_of d (snd ck) \<noteq> None) info_columns"
    by blast
  from a have nd': "nd' = fold (\<lambda>ck. append_to (fst ck) (dict_get d (snd ck) PNone))
      info_columns (new_data s)"
    by (simp add: d append_fields_ok [OF f])
  have fo: "field_of (cache s) (title_key r) k = dict_get d k PNone" for k
    by (simp add: field_of_def hit d)
  have "nd' = served_columns (cache s) (past @ [r])"
    unfolding nd' nd served_columns_def
    by (simp add: fold_append_columns fo)
  then show "new_data s1 = served_columns (cache s1) (past @ [r])" by (simp add: s1)
  show "rows_processed s1 = length (past @ [r])" by (simp add: s1 rp)
  show "cache s1 = cache s" "requests s1 = requests s" "lookups s1 = lookups s"
    "cache_file s1 = cache_file s" by (simp_all add: s1)
  show "has_fields info" using f by (simp add: d)
qed

lemma get_book_requests:
  "length (snd (get_book_info_from_google net n isbn title author)) \<le> 2"
  by (simp add: get_book_info_from_google_def Let_def split: option.splits)

lemma get_book_result:
  "fst (get_book_info_from_google net n isbn title author) = PNone
   \<or> (\<exists>k u. first_volume (net k u) = Some (fst (get_book_info_from_google net n isbn title author)))"
  by (auto simp: get_book_info_from_google_def Let_def split: option.splits if_splits)

lemma make_info_fields: "make_info v = Inr info \<Longrightarrow> has_fields info"
  by (auto simp: make_info_def info_columns_def split: if_splits pyval.splits option.splits)

lemma map_of_update_other:
  "k' \<noteq> k \<Longrightarrow> map_of (AList.update k v al) k' = map_of al k'"
  by (simp add: update_conv')

lemma map_of_update_same: "map_of (AList.update k v al) k = Some v"
  by (simp add: update_conv')

lemma keys_update: "fst ` set (AList.update k v al) = insert k (fst ` set al)"
  using dom_update [of k v al] by (simp add: dom_map_of_conv_image_fst)

lemma served_columns_update:
  assumes "title_key ` set past \<subseteq> fst ` set c" and "k \<notin> fst ` set c"
  shows "served_columns (AList.update k v c) past = served_columns c past"
proof -
  have "field_of (AList.update k v c) (title_key r) f = field_of c (title_key r) f"
    if "r \<in> set past" for r f
  proof -
    from that assms have "title_key r \<noteq> k" by auto
    then show ?thesis by (simp add: field_of_def map_of_update_other)
  qed
  then show ?thesis by (simp add: served_columns_def)
qed

text \<open>What a miss does, when neither \<open>make_info\<close> nor the appends raise.\<close>

lemma process_row_miss:
  assumes miss: "map_of (cache s) (title_key r) = None"
    and step: "process_row net s r = (s1, None)"
  shows "\<exists>info s3. make_info (fst (get_book_info_from_google net (requests s)
              (dict_get r ''api_isbn'' (PStr [])) (PStr (title_key r))
              (dict_get r ''api_author'' (PStr [])))) = Inr info
         \<and> cache s3 = AList.update (title_key r) info (cache s)
         \<and> new_data s3 = new_data s \<and> rows_processed s3 = rows_processed s
         \<and> append_info info s3 = (s1, None)"
proof -
  let ?found = "get_book_info_from_google net (requests s) (dict_get r ''api_isbn'' (PStr []))
      (PStr (title_key r)) (dict_get r ''api_author'' (PStr []))"
  let ?s1 = "s\<lparr>requests := requests s + length (snd ?found),
                lookups := lookups s @ [title_key r]\<rparr>"
  from miss step obtain info where mi: "make_info (fst ?found) = Inr info"
    by (cases "make_info (fst ?found)") (auto simp: process_row_def Let_def)
  let ?s2 = "?s1\<lparr>cache := AList.update (title_key r) info (cache ?s1)\<rparr>"
  let ?s3 = "if rows_processed ?s2 mod 50 = 0 then ?s2\<lparr>cache_file := Some (cache ?s2)\<rparr> else ?s2"
  from miss mi have "process_row net s r = append_info info ?s3"
    by (simp only: process_row_def Let_def option.case sum.case)
  with step have "append_info info ?s3 = (s1, None)" by simp
  moreover have "cache ?s3 = AList.update (title_key r) info (cache s)"
    and "new_data ?s3 = new_data s" and "rows_processed ?s3 = rows_processed s"
    by simp_all
  ultimately show ?thesis using mi by blast
qed

lemma process_row_serves:
  assumes nd: "new_data s = served_columns (cache s) past"
    and rp: "rows_processed s = length past"
    and ks: "title_key ` set past \<subseteq> fst ` set (cache s)"
    and step: "process_row net s r = (s1, None)"
  shows "new_data s1 = served_columns (cache s1) (past @ [r])
       \<and> rows_processed s1 = length (past @ [r])
       \<and> title_key ` set (past @ [r]) \<subseteq> fst ` set (cache s1)"
proof (cases "map_of (cache s) (title_key r)")
  case (Some info)
  with step have a: "append_info info s = (s1, None)" by (simp add: process_row_hit)
  note f = serve_row [OF Some nd rp a]
  from Some have "title_key r \<in> fst ` set (cache s)"
    by (metis map_of_eq_None_iff option.distinct(1))
  with f ks show ?thesis by simp
next
  case None
  from process_row_miss [OF None step] obtain info s3 where
    c3: "cache s3 = AList.update (title_key r) info (cache s)"
    and n3: "new_data s3 = new_data s" and r3: "rows_processed s3 = rows_processed s"
    and a: "append_info info s3 = (s1, None)" by blast
  from None have fresh: "title_key r \<notin> fst ` set (cache s)" by (simp add: map_of_eq_None_iff)
  have hit: "map_of (cache s3) (title_key r) = Some info" by (simp add: c3 map_of_update_same)
  have nd3: "new_data s3 = served_columns (cache s3) past"
    by (simp add: n3 nd c3 served_columns_update [OF ks fresh])
  have rp3: "rows_processed s3 = length past" by (simp add: r3 rp)
  note f = serve_row [OF hit nd3 rp3 a]
  from f(3) c3 ks show ?thesis using f(1,2) by (auto simp: keys_update)
qed

lemma process_rows_serves:
  assumes "new_data s = served_columns (cache s) past"
    and "rows_processed s = length past"
    and "title_key ` set past \<subseteq> fst ` set (cache s)"
    and "process_rows net s rs = (s', None)"
  shows "new_data s' = served_columns (cache s') (past @ rs)
       \<and> rows_processed s' = length (past @ rs)
       \<and> title_key ` set (past @ rs) \<subseteq> fst ` set (cache s')"
  using assms
proof (induction rs arbitrary: s past)
  case Nil
  then show ?case by simp
next
  case (Cons r rs)
  obtain s1 e1 where step: "process_row net s r = (s1, e1)" by (cases "process_row net s r")
  with Cons.prems(4) have e1: "e1 = None" and rest: "process_rows net s1 rs = (s', None)"
    by (auto split: option.splits)
  from process_row_serves [OF Cons.prems(1,2,3) step [unfolded e1]]
  have "new_data s1 = served_columns (cache s1) (past @ [r])"
    and "rows_processed s1 = length (past @ [r])"
    and "title_key ` set (past @ [r]) \<subseteq> fst ` set (cache s1)" by simp_all
  from Cons.IH [OF this rest] show ?case by simp
qed

lemma process_row_cache_mono:
  assumes "process_row net s r = (s1, e)" and "map_of (cache s) k = Some v"
  shows "map_of (cache s1) k = Some v"
proof (cases "map_of (cache s) (title_key r)")
  case (Some info)
  with assms(1) have "s1 = fst (append_info info s)" by (metis process_row_hit fst_conv)
  with assms(2) show ?thesis by (simp add: append_info_keeps)
next
  case None
  with assms(2) have ne: "k \<noteq> title_key r" by auto
  let ?found = "get_book_info_from_google net (requests s) (dict_get r ''api_isbn'' (PStr []))
      (PStr (title_key r)) (dict_get r ''api_author'' (PStr []))"
  let ?s1 = "s\<lparr>requests := requests s + length (snd ?found),
                lookups := lookups s @ [title_key r]\<rparr>"
  show ?thesis
  proof (cases "make_info (fst ?found)")
    case (Inl x)
    with assms(1) None have "s1 = ?s1" by (simp add: process_row_def Let_def)
    with assms(2) show ?thesis by simp
  next
    case (Inr info)
    let ?s2 = "?s1\<lparr>cache := AList.update (title_key r) info (cache ?s1)\<rparr>"
    let ?s3 = "if rows_processed ?s2 mod 50 = 0 then ?s2\<lparr>cache_file := Some (cache ?s2)\<rparr> else ?s2"
    from None Inr have "process_row net s r = append_info info ?s3"
      by (simp only: process_row_def Let_def option.case sum.case)
    with assms(1) have "s1 = fst (append_info info ?s3)" by (metis fst_conv)
    then have "cache s1 = AList.update (title_key r) info (cache s)"
      by (simp add: append_info_keeps)
    with assms(2) ne show ?thesis by (simp add: map_of_update_other)
  qed
qed

lemma process_rows_cache_mono:
  assumes "process_rows net s rs = (s', e)" and "map_of (cache s) k = Some v"
  shows "map_of (cache s') k = Some v"
  using assms
proof (induction rs arbitrary: s)
  case Nil
  then show ?case by simp
next
  case (Cons r rs)
  obtain s1 e1 where step: "process_row net s r = (s1, e1)" by (cases "process_row net s r")
  note m = process_row_cache_mono [OF step Cons.prems(2)]
  show ?case
  proof (cases e1)
    case None
    with step Cons.prems(1) have "process_rows net s1 rs = (s', e)" by simp
    from Cons.IH [OF this m] show ?thesis .
  next
    case (Some x)
    with step Cons.prems(1) have "s' = s1" by simp
    with m show ?thesis by simp
  qed
qed

lemma process_row_requests:
  assumes "process_row net s r = (s1, e)"
  shows "requests s1 + 2 * length (lookups s) \<le> requests s + 2 * length (lookups s1)"
proof (cases "map_of (cache s) (title_key r)")
  case (Some info)
  with assms have "s1 = fst (append_info info s)" by (metis process_row_hit fst_conv)
  then show ?thesis by (simp add: append_info_keeps)
next
  case None
  let ?found = "get_book_info_from_google net (requests s) (dict_get r ''api_isbn'' (PStr []))
      (PStr (title_key r)) (dict_get r ''api_author'' (PStr []))"
  let ?s1 = "s\<lparr>requests := requests s + length (snd ?found),
                lookups := lookups s @ [title_key r]\<rparr>"
  have two: "length (snd ?found) \<le> 2" by (rule get_book_requests)
  show ?thesis
  proof (cases "make_info (fst ?found)")
    case (Inl x)
    with assms None have "s1 = ?s1" by (simp add: process_row_def Let_def)
    with two show ?thesis by simp
  next
    case (Inr info)
    let ?s2 = "?s1\<lparr>cache := AList.update (title_key r) info (cache ?s1)\<rparr>"
    let ?s3 = "if rows_processed ?s2 mod 50 = 0 then ?s2\<lparr>cache_file := Some (cache ?s2)\<rparr> else ?s2"
    from None Inr have "process_row net s r = append_info info ?s3"
      by (simp only: process_row_def Let_def option.case sum.case)
    with assms have "s1 = fst (append_info info ?s3)" by (metis fst_conv)
    then have "requests s1 = requests s + length (snd ?found)"
      and "lookups s1 = lookups s @ [title_key r]"
      by (simp_all add: append_info_keeps)
    with two show ?thesis by simp
  qed
qed

lemma process_rows_requests:
  assumes "process_rows net s rs = (s', e)"
  shows "requests s' + 2 * length (lookups s) \<le> requests s + 2 * length (lookups s')"
  using assms
proof (induction rs arbitrary: s)
  case Nil
  then show ?case by simp
next
  case (Cons r rs)
  obtain s1 e1 where step: "process_row net s r = (s1, e1)" by (cases "process_row net s r")
  note m = process_row_requests [OF step]
  show ?case
  proof (cases e1)
    case None
    with step Cons.prems have "process_rows net s1 rs = (s', e)" by simp
    from Cons.IH [OF this] m show ?thesis by arith
  next
    case (Some x)
    with step Cons.prems have "s' = s1" by simp
    with m show ?thesis by simp
  qed
qed

lemma cache_ok_update:
  "cache_ok c \<Longrightarrow> has_fields v \<Longrightarrow> cache_ok (AList.update k v c)"
  by (induction c) (auto simp: cache_ok_def)

lemma cache_ok_lookup: "cache_ok c \<Longrightarrow> map_of c k = Some v \<Longrightarrow> has_fields v"
  by (induction c) (auto simp: cache_ok_def split: if_splits)

lemma append_info_ok:
  assumes "has_fields info"
  shows "snd (append_info info s) = None"
proof -
  from assms obtain d where d: "info = PDict d"
    and f: "list_all (\<lambda>ck. map_of d (snd ck) \<noteq> None) info_columns"
    by (cases info) auto
  show ?thesis by (simp add: append_info_def d append_fields_ok [OF f])
qed

lemma process_row_total:
  assumes "cache_ok (cache s)" and "volumes_ok net" and "process_row net s r = (s1, e)"
  shows "e = None \<and> cache_ok (cache s1)"
proof (cases "map_of (cache s) (title_key r)")
  case (Some info)
  with assms(3) have eq: "append_info info s = (s1, e)" by (simp add: process_row_hit)
  from cache_ok_lookup [OF assms(1) Some] have "snd (append_info info s) = None"
    by (rule append_info_ok)
  moreover from eq have "cache s1 = cache s" by (metis append_info_keeps(3) fst_conv)
  ultimately show ?thesis using eq assms(1) by simp
next
  case None
  let ?found = "get_book_info_from_google net (requests s) (dict_get r ''api_isbn'' (PStr []))
      (PStr (title_key r)) (dict_get r ''api_author'' (PStr []))"
  let ?s1 = "s\<lparr>requests := requests s + length (snd ?found),
                lookups := lookups s @ [title_key r]\<rparr>"
  have none: "make_info PNone = Inr (PDict [(''rating'', PInt 0), (''count'', PInt 0),
      (''pages'', PInt 0), (''categories'', PStr ''Unknown''), (''desc'', PStr [])])"
    by (simp add: make_info_def)
  have "\<exists>info. make_info (fst ?found) = Inr info"
  proof (cases "fst ?found = PNone")
    case True
    with none show ?thesis by simp
  next
    case False
    with get_book_result [of net "requests s" "dict_get r ''api_isbn'' (PStr [])"
        "PStr (title_key r)" "dict_get r ''api_author'' (PStr [])"]
    obtain k u where "first_volume (net k u) = Some (fst ?found)" by blast
    with assms(2) show ?thesis unfolding volumes_ok_def by blast
  qed
  then obtain info where mi: "make_info (fst ?found) = Inr info" by blast
  let ?s2 = "?s1\<lparr>cache := AList.update (title_key r) info (cache ?s1)\<rparr>"
  let ?s3 = "if rows_processed ?s2 mod 50 = 0 then ?s2\<lparr>cache_file := Some (cache ?s2)\<rparr> else ?s2"
  from None mi have "process_row net s r = append_info info ?s3"
    by (simp only: process_row_def Let_def option.case sum.case)
  with assms(3) have eq: "append_info info ?s3 = (s1, e)" by simp
  from make_info_fields [OF mi] have hf: "has_fields info" .
  then have "snd (append_info info ?s3) = None" by (rule append_info_ok)
  moreover from eq have "cache s1 = cache ?s3" by (metis append_info_keeps(3) fst_conv)
  then have "cache s1 = AList.update (title_key r) info (cache s)" by simp
  ultimately show ?thesis using eq cache_ok_update [OF assms(1) hf] by simp
qed

lemma process_rows_total:
  assumes "cache_ok (cache s)" and "volumes_ok net"
  shows "snd (process_rows net s rs) = None"
  using assms(1)
proof (induction rs arbitrary: s)
  case Nil
  then show ?case by simp
next
  case (Cons r rs)
  obtain s1 e1 where step: "process_row net s r = (s1, e1)" by (cases "process_row net s r")
  from process_row_total [OF Cons.prems assms(2) step] have "e1 = None" and "cache_ok (cache s1)"
    by simp_all
  with step Cons.IH [of s1] show ?case by simp
qed

text \<open>
  C7. A row whose title key is in the cache is served from the cache: no request, no
  call of \<^verbatim>\<open>get_book_info_from_google\<close>, the cache unchanged; when the cached record has
  the five fields, they are appended to \<^verbatim>\<open>new_data\<close> as they are.  Another row with
  the same title key, whatever its identifier and author, is treated in exactly the same
  way.  A row whose title key is not in the cache stores the record it builds under that
  key, leaves every other entry as it is, and is served that same record; a record built
  by the run has the five fields.  Over a whole run, from any cache file and for any
  rows: no title key is looked up twice, no key of the loaded cache is looked up, only
  title keys of the rows are looked up, and at most two requests are made per key looked
  up; an entry of the loaded cache is never changed; when the run ends normally every
  row has been served, and what it was given is the record the final cache holds for its
  title key, so that rows with the same key are given the same record.  The run does end
  normally when the records of the loaded cache have their fields and the network's
  volumes are in order.
\<close>

theorem cache_idempotence:
  "(map_of (cache s) (title_key r) = Some info \<longrightarrow>
       process_row net s r = append_info info s
     \<and> requests (fst (process_row net s r)) = requests s
     \<and> lookups (fst (process_row net s r)) = lookups s
     \<and> cache (fst (process_row net s r)) = cache s)
   \<and> (map_of (cache s) (title_key r) = Some (PDict d) \<longrightarrow>
       list_all (\<lambda>ck. map_of d (snd ck) \<noteq> None) info_columns \<longrightarrow>
       process_row net s r
         = (s\<lparr>new_data := fold (\<lambda>ck. append_to (fst ck) (dict_get d (snd ck) PNone))
                             info_columns (new_data s),
              rows_processed := rows_processed s + 1\<rparr>, None))
   \<and> (map_of (cache s) (title_key r) \<noteq> None \<longrightarrow> title_key r' = title_key r \<longrightarrow>
       process_row net s r' = process_row net s r)
   \<and> (map_of (cache s) (title_key r) = None \<longrightarrow> process_row net s r = (s1, None) \<longrightarrow>
       (\<exists>stored s3.
           make_info (fst (get_book_info_from_google net (requests s)
              (dict_get r ''api_isbn'' (PStr [])) (PStr (title_key r))
              (dict_get r ''api_author'' (PStr [])))) = Inr stored
         \<and> cache s3 = AList.update (title_key r) stored (cache s)
         \<and> new_data s3 = new_data s
         \<and> append_info stored s3 = (s1, None)
         \<and> cache s1 = AList.update (title_key r) stored (cache s)
         \<and> map_of (cache s1) (title_key r) = Some stored
         \<and> (\<forall>k. k \<noteq> title_key r \<longrightarrow> map_of (cache s1) k = map_of (cache s) k)))
   \<and> (make_info info_raw = Inr info' \<longrightarrow> has_fields info')
   \<and> distinct (lookups (fst (process_rows net (init_state file) rs)))
   \<and> set (lookups (fst (process_rows net (init_state file) rs)))
        \<inter> fst ` set (cache (init_state file)) = {}
   \<and> set (lookups (fst (process_rows net (init_state file) rs))) \<subseteq> title_key ` set rs
   \<and> requests (fst (process_rows net (init_state file) rs))
        \<le> 2 * length (lookups (fst (process_rows net (init_state file) rs)))
   \<and> (\<forall>k v. map_of (cache (init_state file)) k = Some v \<longrightarrow>
              map_of (cache (fst (process_rows net (init_state file) rs))) k = Some v)
   \<and> (snd (process_rows net (init_state file) rs) = None \<longrightarrow>
         new_data (fst (process_rows net (init_state file) rs))
           = served_columns (cache (fst (process_rows net (init_state file) rs))) rs
       \<and> rows_processed (fst (process_rows net (init_state file) rs)) = length rs
       \<and> title_key ` set rs \<subseteq> fst ` set (cache (fst (process_rows net (init_state file) rs))))
   \<and> (cache_ok (cache (init_state file)) \<longrightarrow> volumes_ok net \<longrightarrow>
         snd (process_rows net (init_state file) rs) = None)"
proof -
  have hit: "map_of (cache s) (title_key r) = Some info \<longrightarrow>
       process_row net s r = append_info info s
     \<and> requests (fst (process_row net s r)) = requests s
     \<and> lookups (fst (process_row net s r)) = lookups s
     \<and> cache (fst (process_row net s r)) = cache s"
    by (simp add: process_row_hit append_info_keeps)
  have verbatim: "map_of (cache s) (title_key r) = Some (PDict d) \<longrightarrow>
       list_all (\<lambda>ck. map_of d (snd ck) \<noteq> None) info_columns \<longrightarrow>
       process_row net s r
         = (s\<lparr>new_data := fold (\<lambda>ck. append_to (fst ck) (dict_get d (snd ck) PNone))
                             info_columns (new_data s),
              rows_processed := rows_processed s + 1\<rparr>, None)"
    by (simp add: process_row_hit append_info_def append_fields_ok)
  have same: "map_of (cache s) (title_key r) \<noteq> None \<longrightarrow> title_key r' = title_key r \<longrightarrow>
       process_row net s r' = process_row net s r"
    by (auto simp: process_row_def)
  have miss: "map_of (cache s) (title_key r) = None \<longrightarrow> process_row net s r = (s1, None) \<longrightarrow>
       (\<exists>stored s3.
           make_info (fst (get_book_info_from_google net (requests s)
              (dict_get r ''api_isbn'' (PStr [])) (PStr (title_key r))
              (dict_get r ''api_author'' (PStr [])))) = Inr stored
         \<and> cache s3 = AList.update (title_key r) stored (cache s)
         \<and> new_data s3 = new_data s
         \<and> append_info stored s3 = (s1, None)
         \<and> cache s1 = AList.update (title_key r) stored (cache s)
         \<and> map_of (cache s1) (title_key r) = Some stored
         \<and> (\<forall>k. k \<noteq> title_key r \<longrightarrow> map_of (cache s1) k = map_of (cache s) k))"
  proof (intro impI)
    assume m: "map_of (cache s) (title_key r) = None" and st: "process_row net s r = (s1, None)"
    from process_row_miss [OF m st] obtain stored s3 where
      mi: "make_info (fst (get_book_info_from_google net (requests s)
              (dict_get r ''api_isbn'' (PStr [])) (PStr (title_key r))
              (dict_get r ''api_author'' (PStr [])))) = Inr stored"
      and c3: "cache s3 = AList.update (title_key r) stored (cache s)"
      and n3: "new_data s3 = new_data s"
      and a: "append_info stored s3 = (s1, None)" by blast
    from a have "cache s1 = cache s3" by (metis append_info_keeps(3) fst_conv)
    with c3 have c1: "cache s1 = AList.update (title_key r) stored (cache s)" by simp
    then have "map_of (cache s1) (title_key r) = Some stored"
      and "\<forall>k. k \<noteq> title_key r \<longrightarrow> map_of (cache s1) k = map_of (cache s) k"
      by (simp_all add: map_of_update_same map_of_update_other)
    with mi c3 n3 a c1 show "\<exists>stored s3.
           make_info (fst (get_book_info_from_google net (requests s)
              (dict_get r ''api_isbn'' (PStr [])) (PStr (title_key r))
              (dict_get r ''api_author'' (PStr [])))) = Inr stored
         \<and> cache s3 = AList.update (title_key r) stored (cache s)
         \<and> new_data s3 = new_data s
         \<and> append_info stored s3 = (s1, None)
         \<and> cache s1 = AList.update (title_key r) stored (cache s)
         \<and> map_of (cache s1) (title_key r) = Some stored
         \<and> (\<forall>k. k \<noteq> title_key r \<longrightarrow> map_of (cache s1) k = map_of (cache s) k)"
      by blast
  qed
  have made: "make_info info_raw = Inr info' \<longrightarrow> has_fields info'"
    using make_info_fields by blast
  obtain s' e where run: "process_rows net (init_state file) rs = (s', e)"
    by (cases "process_rows net (init_state file) rs")
  from process_rows_lookups [OF run] obtain new where
    "lookups s' = lookups (init_state file) @ new" "distinct new"
    "set new \<inter> fst ` set (cache (init_state file)) = {}" "set new \<subseteq> title_key ` set rs"
    by blast
  with run have r1: "distinct (lookups (fst (process_rows net (init_state file) rs)))"
    and r2: "set (lookups (fst (process_rows net (init_state file) rs)))
        \<inter> fst ` set (cache (init_state file)) = {}"
    and r3: "set (lookups (fst (process_rows net (init_state file) rs))) \<subseteq> title_key ` set rs"
    by (simp_all add: init_state_def)
  from process_rows_requests [OF run] run
  have r4: "requests (fst (process_rows net (init_state file) rs))
        \<le> 2 * length (lookups (fst (process_rows net (init_state file) rs)))"
    by (simp add: init_state_def)
  from process_rows_cache_mono [OF run] run
  have r5: "\<forall>k v. map_of (cache (init_state file)) k = Some v \<longrightarrow>
              map_of (cache (fst (process_rows net (init_state file) rs))) k = Some v"
    by simp
  have i1: "new_data (init_state file) = served_columns (cache (init_state file)) []"
    by (simp add: init_state_def served_columns_def info_columns_def)
  have i2: "rows_processed (init_state file) = length ([] :: row list)"
    by (simp add: init_state_def)
  have i3: "title_key ` set [] \<subseteq> fst ` set (cache (init_state file))" by simp
  have r6: "snd (process_rows net (init_state file) rs) = None \<longrightarrow>
         new_data (fst (process_rows net (init_state file) rs))
           = served_columns (cache (fst (process_rows net (init_state file) rs))) rs
       \<and> rows_processed (fst (process_rows net (init_state file) rs)) = length rs
       \<and> title_key ` set rs \<subseteq> fst ` set (cache (fst (process_rows net (init_state file) rs)))"
  proof
    assume "snd (process_rows net (init_state file) rs) = None"
    with run have "process_rows net (init_state file) rs = (s', None)" by simp
    from process_rows_serves [OF i1 i2 i3 this] run show
      "new_data (fst (process_rows net (init_state file) rs))
           = served_columns (cache (fst (process_rows net (init_state file) rs))) rs
       \<and> rows_processed (fst (process_rows net (init_state file) rs)) = length rs
       \<and> title_key ` set rs \<subseteq> fst ` set (cache (fst (process_rows net (init_state file) rs)))"
      by simp
  qed
  have r7: "cache_ok (cache (init_state file)) \<longrightarrow> volumes_ok net \<longrightarrow>
         snd (process_rows net (init_state file) rs) = None"
    using process_rows_total by blast
  show ?thesis
    by (intro conjI) (fact hit, fact verbatim, fact same, fact miss, fact made,
        fact r1, fact r2, fact r3, fact r4, fact r5, fact r6, fact r7)
qed

theorem cache_idempotence_witness:
  "map_of (cache (init_state (Some [(''Dune'',
       PDict [(''rating'', PInt 4), (''count'', PInt 1200), (''pages'', PInt 412),
              (''categories'', PStr ''Fiction''), (''desc'', PStr ''Arrakis'')])])))
     (title_key [(''Title'', PStr ''Dune''), (''api_isbn'', PStr ''9780441013593''),
      (''api_author'', PStr ''Frank Herbert'')])
   = Some (PDict [(''rating'', PInt 4), (''count'', PInt 1200), (''pages'', PInt 412),
              (''categories'', PStr ''Fiction''), (''desc'', PStr ''Arrakis'')])
   \<and> list_all (\<lambda>ck. map_of [(''rating'', PInt 4), (''count'', PInt 1200), (''pages'', PInt 412),
              (''categories'', PStr ''Fiction''), (''desc'', PStr ''Arrakis'')] (snd ck) \<noteq> None) info_columns
   \<and> title_key [(''Title'', PStr '' Dune ''), (''api_isbn'', PInt 0),
      (''api_author'', PStr ''Unknown Author'')]
     = title_key [(''Title'', PStr ''Dune''), (''api_isbn'', PStr ''9780441013593''),
      (''api_author'', PStr ''Frank Herbert'')]
   \<and> process_row (\<lambda>k u. ConnError) (init_state (Some [(''Dune'',
       PDict [(''rating'', PInt 4), (''count'', PInt 1200), (''pages'', PInt 412),
              (''categories'', PStr ''Fiction''), (''desc'', PStr ''Arrakis'')])]))
        [(''Title'', PStr ''Dune''), (''api_isbn'', PStr ''9780441013593''),
      (''api_author'', PStr ''Frank Herbert'')]
     = ((init_state (Some [(''Dune'',
       PDict [(''rating'', PInt 4), (''count'', PInt 1200), (''pages'', PInt 412),
              (''categories'', PStr ''Fiction''), (''desc'', PStr ''Arrakis'')])]))
        \<lparr>new_data := [(''google_rating'', [PInt 4]), (''google_ratings_count'', [PInt 1200]),
                      (''google_page_count'', [PInt 412]),
                      (''google_categories'', [PStr ''Fiction'']),
                      (''google_description'', [PStr ''Arrakis''])],
         rows_processed := 1\<rparr>, None)
   \<and> process_row (\<lambda>k u. ConnError) (init_state (Some [(''Dune'',
       PDict [(''rating'', PInt 4), (''count'', PInt 1200), (''pages'', PInt 412),
              (''categories'', PStr ''Fiction''), (''desc'', PStr ''Arrakis'')])]))
        [(''Title'', PStr '' Dune ''), (''api_isbn'', PInt 0),
      (''api_author'', PStr ''Unknown Author'')]
     = process_row (\<lambda>k u. ConnError) (init_state (Some [(''Dune'',
       PDict [(''rating'', PInt 4), (''count'', PInt 1200), (''pages'', PInt 412),
              (''categories'', PStr ''Fiction''), (''desc'', PStr ''Arrakis'')])]))
        [(''Title'', PStr ''Dune''), (''api_isbn'', PStr ''9780441013593''),
      (''api_author'', PStr ''Frank Herbert'')]
   \<and> map_of (cache (init_state None)) (title_key [(''Title'', PStr ''Dune''), (''api_isbn'', PStr ''9780441013593''),
      (''api_author'', PStr ''Frank Herbert'')]) = None
   \<and> process_row (\<lambda>k u. Reply 200 (Some (PDict [(''items'', PList [PDict [(''volumeInfo'',
       PDict [(''averageRating'', PInt 5), (''categories'', PList [PStr ''Fiction''])])]])]))) (init_state None)
        [(''Title'', PStr ''Dune''), (''api_isbn'', PStr ''9780441013593''),
      (''api_author'', PStr ''Frank Herbert'')]
     = (\<lparr>cache = [(''Dune'', PDict [(''rating'', PInt 5), (''count'', PInt 0), (''pages'', PInt 0),
            (''categories'', PStr ''Fiction''), (''desc'', PStr [])])],
      cache_file = Some [(''Dune'', PDict [(''rating'', PInt 5), (''count'', PInt 0), (''pages'', PInt 0),
            (''categories'', PStr ''Fiction''), (''desc'', PStr [])])],
      new_data = [(''google_rating'', [PInt 5]), (''google_ratings_count'', [PInt 0]),
                  (''google_page_count'', [PInt 0]), (''google_categories'', [PStr ''Fiction'']),
                  (''google_description'', [PStr []])],
      rows_processed = 1, requests = 1, lookups = [''Dune'']\<rparr>, None)
   \<and> make_info PNone = Inr (PDict [(''rating'', PInt 0), (''count'', PInt 0), (''pages'', PInt 0),
            (''categories'', PStr ''Unknown''), (''desc'', PStr [])])
   \<and> cache_ok (cache (init_state None))
   \<and> volumes_ok (\<lambda>k u. Reply 200 (Some (PDict [(''items'', PList [PDict [(''volumeInfo'',
       PDict [(''averageRating'', PInt 5), (''categories'', PList [PStr ''Fiction''])])]])])))
   \<and> process_rows (\<lambda>k u. Reply 200 (Some (PDict [(''items'', PList [PDict [(''volumeInfo'',
       PDict [(''averageRating'', PInt 5), (''categories'', PList [PStr ''Fiction''])])]])]))) (init_state None)
        [[(''Title'', PStr ''Dune''), (''api_isbn'', PStr ''9780441013593''),
      (''api_author'', PStr ''Frank Herbert'')],
         [(''Title'', PStr '' Dune ''), (''api_isbn'', PInt 0),
      (''api_author'', PStr ''Unknown Author'')]]
     = (\<lparr>cache = [(''Dune'', PDict [(''rating'', PInt 5), (''count'', PInt 0), (''pages'', PInt 0),
            (''categories'', PStr ''Fiction''), (''desc'', PStr [])])],
      cache_file = Some [(''Dune'', PDict [(''rating'', PInt 5), (''count'', PInt 0), (''pages'', PInt 0),
            (''categories'', PStr ''Fiction''), (''desc'', PStr [])])],
      new_data = [(''google_rating'', [PInt 5, PInt 5]),
                  (''google_ratings_count'', [PInt 0, PInt 0]),
                  (''google_page_count'', [PInt 0, PInt 0]),
                  (''google_categories'', [PStr ''Fiction'', PStr ''Fiction'']),
                  (''google_description'', [PStr [], PStr []])],
      rows_processed = 2, requests = 1, lookups = [''Dune'']\<rparr>, None)
   \<and> new_data (fst (process_rows (\<lambda>k u. Reply 200 (Some (PDict [(''items'', PList [PDict [(''volumeInfo'',
       PDict [(''averageRating'', PInt 5), (''categories'', PList [PStr ''Fiction''])])]])]))) (init_state None)
        [[(''Title'', PStr ''Dune''), (''api_isbn'', PStr ''9780441013593''),
      (''api_author'', PStr ''Frank Herbert'')],
         [(''Title'', PStr '' Dune ''), (''api_isbn'', PInt 0),
      (''api_author'', PStr ''Unknown Author'')]]))
     = served_columns (cache (fst (process_rows (\<lambda>k u. Reply 200 (Some (PDict [(''items'', PList [PDict [(''volumeInfo'',
       PDict [(''averageRating'', PInt 5), (''categories'', PList [PStr ''Fiction''])])]])]))) (init_state None)
        [[(''Title'', PStr ''Dune''), (''api_isbn'', PStr ''9780441013593''),
      (''api_author'', PStr ''Frank Herbert'')],
         [(''Title'', PStr '' Dune ''), (''api_isbn'', PInt 0),
      (''api_author'', PStr ''Unknown Author'')]])))
        [[(''Title'', PStr ''Dune''), (''api_isbn'', PStr ''9780441013593''),
      (''api_author'', PStr ''Frank Herbert'')],
         [(''Title'', PStr '' Dune ''), (''api_isbn'', PInt 0),
      (''api_author'', PStr ''Unknown Author'')]]"
proof -
  let ?d = "[(''rating'', PInt 4), (''count'', PInt 1200), (''pages'', PInt 412),
              (''categories'', PStr ''Fiction''), (''desc'', PStr ''Arrakis'')]"
  let ?s = "(init_state (Some [(''Dune'',
       PDict [(''rating'', PInt 4), (''count'', PInt 1200), (''pages'', PInt 412),
              (''categories'', PStr ''Fiction''), (''desc'', PStr ''Arrakis'')])]))"
  let ?r = "[(''Title'', PStr ''Dune''), (''api_isbn'', PStr ''9780441013593''),
      (''api_author'', PStr ''Frank Herbert'')]"
  let ?r' = "[(''Title'', PStr '' Dune ''), (''api_isbn'', PInt 0),
      (''api_author'', PStr ''Unknown Author'')]"
  let ?net = "\<lambda>(k::nat) (u::string). ConnError"
  let ?web = "(\<lambda>k u. Reply 200 (Some (PDict [(''items'', PList [PDict [(''volumeInfo'',
       PDict [(''averageRating'', PInt 5), (''categories'', PList [PStr ''Fiction''])])]])])))"
  let ?i = "PDict [(''rating'', PInt 0), (''count'', PInt 0), (''pages'', PInt 0),
            (''categories'', PStr ''Unknown''), (''desc'', PStr [])]"
  let ?rs = "[?r, ?r']"
  let ?S1 = "\<lparr>cache = [(''Dune'', PDict [(''rating'', PInt 5), (''count'', PInt 0), (''pages'', PInt 0),
            (''categories'', PStr ''Fiction''), (''desc'', PStr [])])],
      cache_file = Some [(''Dune'', PDict [(''rating'', PInt 5), (''count'', PInt 0), (''pages'', PInt 0),
            (''categories'', PStr ''Fiction''), (''desc'', PStr [])])],
      new_data = [(''google_rating'', [PInt 5]), (''google_ratings_count'', [PInt 0]),
                  (''google_page_count'', [PInt 0]), (''google_categories'', [PStr ''Fiction'']),
                  (''google_description'', [PStr []])],
      rows_processed = 1, requests = 1, lookups = [''Dune'']\<rparr>"
  have k: "title_key ?r = ''Dune''" and k': "title_key ?r' = ''Dune''"
    by (simp_all add: title_key_def dict_get_def strip_def is_space_def)
  have h1: "map_of (cache ?s) (title_key ?r) = Some (PDict ?d)"
    by (simp add: k init_state_def)
  have h2: "list_all (\<lambda>ck. map_of ?d (snd ck) \<noteq> None) info_columns"
    by (simp add: info_columns_def)
  have h3: "title_key ?r' = title_key ?r" by (simp only: k k')
  have h4: "make_info PNone = Inr ?i" by (simp add: make_info_def)
  have h5: "map_of (cache (init_state None)) (title_key ?r) = None"
    by (simp add: init_state_def)
  have h6: "process_row ?web (init_state None) ?r = (?S1, None)"
    by code_simp
  have h7: "cache_ok (cache (init_state None))"
    by (simp add: init_state_def cache_ok_def)
  have h8: "volumes_ok ?web"
    by (simp add: volumes_ok_def first_volume_def make_info_def dict_get_def)
  have run: "process_rows ?web (init_state None) ?rs
      = (\<lparr>cache = [(''Dune'', PDict [(''rating'', PInt 5), (''count'', PInt 0), (''pages'', PInt 0),
            (''categories'', PStr ''Fiction''), (''desc'', PStr [])])],
      cache_file = Some [(''Dune'', PDict [(''rating'', PInt 5), (''count'', PInt 0), (''pages'', PInt 0),
            (''categories'', PStr ''Fiction''), (''desc'', PStr [])])],
      new_data = [(''google_rating'', [PInt 5, PInt 5]),
                  (''google_ratings_count'', [PInt 0, PInt 0]),
                  (''google_page_count'', [PInt 0, PInt 0]),
                  (''google_categories'', [PStr ''Fiction'', PStr ''Fiction'']),
                  (''google_description'', [PStr [], PStr []])],
      rows_processed = 2, requests = 1, lookups = [''Dune'']\<rparr>, None)"
    by code_simp
  note c = cache_idempotence [where s = ?s and r = ?r and info = "PDict ?d" and net = ?net
      and d = ?d and r' = ?r' and info_raw = PNone and info' = ?i]
  note w = cache_idempotence [of "init_state None" ?r _ ?web _ _ ?S1 _ _ None ?rs]
  from c h1 h2 have v: "process_row ?net ?s ?r
      = (?s\<lparr>new_data := fold (\<lambda>ck. append_to (fst ck) (dict_get ?d (snd ck) PNone))
                             info_columns (new_data ?s),
            rows_processed := rows_processed ?s + 1\<rparr>, None)"
    by blast
  have nd: "fold (\<lambda>ck. append_to (fst ck) (dict_get ?d (snd ck) PNone)) info_columns (new_data ?s)
      = [(''google_rating'', [PInt 4]), (''google_ratings_count'', [PInt 1200]),
         (''google_page_count'', [PInt 412]), (''google_categories'', [PStr ''Fiction'']),
         (''google_description'', [PStr ''Arrakis''])]"
    by (simp add: info_columns_def append_to_def dict_get_def init_state_def)
  have rp: "rows_processed ?s + 1 = 1" by (simp add: init_state_def)
  from c h1 h3 have same: "process_row ?net ?s ?r' = process_row ?net ?s ?r" by simp
  from v have v': "process_row ?net ?s ?r
      = ((init_state (Some [(''Dune'',
       PDict [(''rating'', PInt 4), (''count'', PInt 1200), (''pages'', PInt 412),
              (''categories'', PStr ''Fiction''), (''desc'', PStr ''Arrakis'')])]))
        \<lparr>new_data := [(''google_rating'', [PInt 4]), (''google_ratings_count'', [PInt 1200]),
                      (''google_page_count'', [PInt 412]),
                      (''google_categories'', [PStr ''Fiction'']),
                      (''google_description'', [PStr ''Arrakis''])],
         rows_processed := 1\<rparr>, None)"
    by (simp only: nd rp)
  from w h7 h8 have ok: "snd (process_rows ?web (init_state None) ?rs) = None" by blast
  with w have served: "new_data (fst (process_rows ?web (init_state None) ?rs))
      = served_columns (cache (fst (process_rows ?web (init_state None) ?rs))) ?rs"
    by blast
  show ?thesis
    by (intro conjI) (fact h1, fact h2, fact h3, fact v', fact same, fact h5, fact h6,
        fact h4, fact h7, fact h8, fact run, fact served)
qed

text \<open>
  C8. A run of 53 rows from an empty cache, with no cache file: every row has a title of
  its own, except row 50, which has the title of row 0.  Row 0 is a miss at a row count
  divisible by 50 and writes the cache file; row 50 is a hit, so nothing is written
  there.  After the 53 rows the cache holds 51 entries that the cache file does not:
  more than 50.
\<close>

theorem flush_cadence_exceeded:
  "unflushed (fst (process_rows (\<lambda>k u. ConnError) (init_state None)
      (map (\<lambda>i. [(''Title'', PStr (if i = 50 then ''0'' else str_nat i))]) [0..<53]))) = 51"
  by code_simp

end
